theory Spec2Isabelle
  imports Complex_Main "HOL-Library.Word"
begin

section \<open>Machine integers of the tracers\<close>

text \<open>
  Every local variable of the tracers is a C++ \<^verbatim>\<open>int\<close>, 32 bits wide on the
  platforms the library is built for: it is modelled as an \<open>int\<close> that is brought back
  into the 32-bit range by \<open>int32\<close> after every conversion and every arithmetic
  operation. For a conversion from \<^verbatim>\<open>int64_t\<close> this is the value every mainstream
  compiler gives (and C++20 prescribes); for signed arithmetic that leaves the 32-bit
  range the language leaves the behaviour undefined, and the model takes the wrap-around
  of two's complement hardware.
\<close>

text \<open>
  Modelled from the spec: the types \<^verbatim>\<open>Vec3Ix\<close> and \<^verbatim>\<open>Vec2Ix\<close> are declared in
  \<^verbatim>\<open>grid_types.hpp\<close>, which is not part of the source. The spec has grid coordinates
  as integer 3-vectors and 2-vectors of 64-bit component width, and the source agrees
  ("beware: vec3ix are int64_t"). They are tuples of 64-bit words, read as two's
  complement by \<open>sint\<close>.
\<close>

type_synonym Vec3Ix = "64 word \<times> 64 word \<times> 64 word"
type_synonym Vec2Ix = "64 word \<times> 64 word"

definition int32 :: "int \<Rightarrow> int" where
  "int32 v = (v + 2 ^ 31) mod 2 ^ 32 - 2 ^ 31"

text \<open>
  The three tracers start with the same block, repeated in the source for every axis:
  \<^verbatim>\<open>if (d > 0) s = 1; else if (d < 0) { s = -1; d = -d; } else s = 0;\<close>
  \<open>sign_abs d\<close> is the pair \<open>(s, d)\<close> after that block.
\<close>

definition sign_abs :: "int \<Rightarrow> int \<times> int" where
  "sign_abs d = (if d > 0 then (1, d) else if d < 0 then (- 1, int32 (- d)) else (0, d))"

section \<open>The 3-D tracer with a visitor\<close>

text \<open>
  A visitor is a callable \<^verbatim>\<open>fun(x, y, z)\<close> returning the "continue" flag; its side
  effects are made explicit by a state \<open>'s\<close> that it takes and returns. Each of the three
  \<^verbatim>\<open>for (;;)\<close> loops of \<^verbatim>\<open>bresenham_trace\<close> is a recursive function of the
  loop variables; a loop that never leaves has the value \<open>None\<close>.
\<close>

type_synonym 's visitor3 = "int \<Rightarrow> int \<Rightarrow> int \<Rightarrow> 's \<Rightarrow> bool \<times> 's"

text \<open>
  The loops read six locals that they never write (\<open>sx sy sz ax ay az\<close>, passed as one
  tuple) and update five (the cell and the two decision variables, a second tuple).
\<close>

type_synonym steps3 = "int \<times> int \<times> int \<times> int \<times> int \<times> int"
type_synonym vars3 = "int \<times> int \<times> int \<times> int \<times> int"

partial_function (option) trace_x ::
  "'s visitor3 \<Rightarrow> int \<Rightarrow> steps3 \<Rightarrow> vars3 \<Rightarrow> 's \<Rightarrow> 's option" where
  "trace_x fun end0 k v st =
     (case k of (sx, sy, sz, ax, ay, az) \<Rightarrow>
      case v of (x, y, z, decy, decz) \<Rightarrow>
      let r = fun x y z st in
      if \<not> fst r then Some (snd r)
      else if x = end0 then Some (snd r)
      else
        let decy1 = (if decy \<ge> 0 then int32 (decy - ax) else decy);
            y1 = (if decy \<ge> 0 then int32 (y + sy) else y);
            decz1 = (if decz \<ge> 0 then int32 (decz - ax) else decz);
            z1 = (if decz \<ge> 0 then int32 (z + sz) else z)
        in trace_x fun end0 k
             (int32 (x + sx), y1, z1, int32 (decy1 + ay), int32 (decz1 + az)) (snd r))"

partial_function (option) trace_y ::
  "'s visitor3 \<Rightarrow> int \<Rightarrow> steps3 \<Rightarrow> vars3 \<Rightarrow> 's \<Rightarrow> 's option" where
  "trace_y fun end1 k v st =
     (case k of (sx, sy, sz, ax, ay, az) \<Rightarrow>
      case v of (x, y, z, decx, decz) \<Rightarrow>
      let r = fun x y z st in
      if \<not> fst r then Some (snd r)
      else if y = end1 then Some (snd r)
      else
        let decx1 = (if decx \<ge> 0 then int32 (decx - ay) else decx);
            x1 = (if decx \<ge> 0 then int32 (x + sx) else x);
            decz1 = (if decz \<ge> 0 then int32 (decz - ay) else decz);
            z1 = (if decz \<ge> 0 then int32 (z + sz) else z)
        in trace_y fun end1 k
             (x1, int32 (y + sy), z1, int32 (decx1 + ax), int32 (decz1 + az)) (snd r))"

partial_function (option) trace_z ::
  "'s visitor3 \<Rightarrow> int \<Rightarrow> steps3 \<Rightarrow> vars3 \<Rightarrow> 's \<Rightarrow> 's option" where
  "trace_z fun end2 k v st =
     (case k of (sx, sy, sz, ax, ay, az) \<Rightarrow>
      case v of (x, y, z, decx, decy) \<Rightarrow>
      let r = fun x y z st in
      if \<not> fst r then Some (snd r)
      else if z = end2 then Some (snd r)
      else
        let decx1 = (if decx \<ge> 0 then int32 (decx - az) else decx);
            x1 = (if decx \<ge> 0 then int32 (x + sx) else x);
            decy1 = (if decy \<ge> 0 then int32 (decy - az) else decy);
            y1 = (if decy \<ge> 0 then int32 (y + sy) else y)
        in trace_z fun end2 k
             (x1, y1, int32 (z + sz), int32 (decx1 + ax), int32 (decy1 + ay)) (snd r))"

declare trace_x.simps [code] trace_y.simps [code] trace_z.simps [code]

definition bresenham_trace :: "Vec3Ix \<Rightarrow> Vec3Ix \<Rightarrow> 's visitor3 \<Rightarrow> 's \<Rightarrow> 's option" where
  "bresenham_trace start_pos end_pos fun st =
     (case (start_pos, end_pos) of ((start0, start1, start2), (end0, end1, end2)) \<Rightarrow>
      let x = int32 (sint start0);
          y = int32 (sint start1);
          z = int32 (sint start2);
          (sx, dx) = sign_abs (int32 (sint (end0 - start0)));
          (sy, dy) = sign_abs (int32 (sint (end1 - start1)));
          (sz, dz) = sign_abs (int32 (sint (end2 - start2)));
          ax = int32 (2 * dx);
          ay = int32 (2 * dy);
          az = int32 (2 * dz);
          k = (sx, sy, sz, ax, ay, az)
      in if dy \<le> dx \<and> dz \<le> dx then
           trace_x fun (sint end0) k (x, y, z, int32 (ay - dx), int32 (az - dx)) st
         else if dx \<le> dy \<and> dz \<le> dy then
           trace_y fun (sint end1) k (x, y, z, int32 (ax - dy), int32 (az - dy)) st
         else if dx \<le> dz \<and> dy \<le> dz then
           trace_z fun (sint end2) k (x, y, z, int32 (ax - dz), int32 (ay - dz)) st
         else Some st)"

text \<open>The visitor that records the cell it is given and asks to continue.\<close>

definition record_cell :: "(int \<times> int \<times> int) list visitor3" where
  "record_cell x y z seen = (True, seen @ [(x, y, z)])"

section \<open>The counting tracer\<close>

text \<open>
  \<^verbatim>\<open>bresenham_trace_simple\<close> repeats the three loops; where the tracer calls its
  visitor it runs \<^verbatim>\<open>mem_ix = grid3.grid_to_mem(x, y, z); array3[mem_ix] += 1;\<close>
  and it has no way to leave but the test on the driving axis. The classes
  \<^verbatim>\<open>ScrollGrid3\<close> and \<^verbatim>\<open>DenseArray3\<close> are not part of the source: the grid is
  taken as its function \<open>grid_to_mem\<close> into some type \<open>'m\<close> of offsets, the array as a
  function from offsets to counters of a numeric type \<open>'c\<close> (the template parameter
  \<^verbatim>\<open>ArrayScalar\<close>). The first two loops declare \<^verbatim>\<open>mem_ix\<close> as
  \<^verbatim>\<open>mem_ix_t\<close>, the third as \<^verbatim>\<open>grid_ix_t\<close>; either way it is the value of
  \<^verbatim>\<open>grid_to_mem\<close> that indexes the array.
\<close>

partial_function (option) simple_x ::
  "(int \<Rightarrow> int \<Rightarrow> int \<Rightarrow> 'm) \<Rightarrow> int \<Rightarrow> steps3 \<Rightarrow> vars3 \<Rightarrow> ('m \<Rightarrow> 'c::{plus,one})
   \<Rightarrow> ('m \<Rightarrow> 'c) option" where
  "simple_x grid_to_mem end0 k v array3 =
     (case k of (sx, sy, sz, ax, ay, az) \<Rightarrow>
      case v of (x, y, z, decy, decz) \<Rightarrow>
      let mem_ix = grid_to_mem x y z;
          array3' = array3 (mem_ix := array3 mem_ix + 1)
      in
      if x = end0 then Some array3'
      else
        let decy1 = (if decy \<ge> 0 then int32 (decy - ax) else decy);
            y1 = (if decy \<ge> 0 then int32 (y + sy) else y);
            decz1 = (if decz \<ge> 0 then int32 (decz - ax) else decz);
            z1 = (if decz \<ge> 0 then int32 (z + sz) else z)
        in simple_x grid_to_mem end0 k
             (int32 (x + sx), y1, z1, int32 (decy1 + ay), int32 (decz1 + az)) array3')"

partial_function (option) simple_y ::
  "(int \<Rightarrow> int \<Rightarrow> int \<Rightarrow> 'm) \<Rightarrow> int \<Rightarrow> steps3 \<Rightarrow> vars3 \<Rightarrow> ('m \<Rightarrow> 'c::{plus,one})
   \<Rightarrow> ('m \<Rightarrow> 'c) option" where
  "simple_y grid_to_mem end1 k v array3 =
     (case k of (sx, sy, sz, ax, ay, az) \<Rightarrow>
      case v of (x, y, z, decx, decz) \<Rightarrow>
      let mem_ix = grid_to_mem x y z;
          array3' = array3 (mem_ix := array3 mem_ix + 1)
      in
      if y = end1 then Some array3'
      else
        let decx1 = (if decx \<ge> 0 then int32 (decx - ay) else decx);
            x1 = (if decx \<ge> 0 then int32 (x + sx) else x);
            decz1 = (if decz \<ge> 0 then int32 (decz - ay) else decz);
            z1 = (if decz \<ge> 0 then int32 (z + sz) else z)
        in simple_y grid_to_mem end1 k
             (x1, int32 (y + sy), z1, int32 (decx1 + ax), int32 (decz1 + az)) array3')"

partial_function (option) simple_z ::
  "(int \<Rightarrow> int \<Rightarrow> int \<Rightarrow> 'm) \<Rightarrow> int \<Rightarrow> steps3 \<Rightarrow> vars3 \<Rightarrow> ('m \<Rightarrow> 'c::{plus,one})
   \<Rightarrow> ('m \<Rightarrow> 'c) option" where
  "simple_z grid_to_mem end2 k v array3 =
     (case k of (sx, sy, sz, ax, ay, az) \<Rightarrow>
      case v of (x, y, z, decx, decy) \<Rightarrow>
      let mem_ix = grid_to_mem x y z;
          array3' = array3 (mem_ix := array3 mem_ix + 1)
      in
      if z = end2 then Some array3'
      else
        let decx1 = (if decx \<ge> 0 then int32 (decx - az) else decx);
            x1 = (if decx \<ge> 0 then int32 (x + sx) else x);
            decy1 = (if decy \<ge> 0 then int32 (decy - az) else decy);
            y1 = (if decy \<ge> 0 then int32 (y + sy) else y)
        in simple_z grid_to_mem end2 k
             (x1, y1, int32 (z + sz), int32 (decx1 + ax), int32 (decy1 + ay)) array3')"

declare simple_x.simps [code] simple_y.simps [code] simple_z.simps [code]

definition bresenham_trace_simple ::
  "Vec3Ix \<Rightarrow> Vec3Ix \<Rightarrow> (int \<Rightarrow> int \<Rightarrow> int \<Rightarrow> 'm) \<Rightarrow> ('m \<Rightarrow> 'c::{plus,one})
   \<Rightarrow> ('m \<Rightarrow> 'c) option" where
  "bresenham_trace_simple start_pos end_pos grid_to_mem array3 =
     (case (start_pos, end_pos) of ((start0, start1, start2), (end0, end1, end2)) \<Rightarrow>
      let x = int32 (sint start0);
          y = int32 (sint start1);
          z = int32 (sint start2);
          (sx, dx) = sign_abs (int32 (sint (end0 - start0)));
          (sy, dy) = sign_abs (int32 (sint (end1 - start1)));
          (sz, dz) = sign_abs (int32 (sint (end2 - start2)));
          ax = int32 (2 * dx);
          ay = int32 (2 * dy);
          az = int32 (2 * dz);
          k = (sx, sy, sz, ax, ay, az)
      in if dy \<le> dx \<and> dz \<le> dx then
           simple_x grid_to_mem (sint end0) k (x, y, z, int32 (ay - dx), int32 (az - dx)) array3
         else if dx \<le> dy \<and> dz \<le> dy then
           simple_y grid_to_mem (sint end1) k (x, y, z, int32 (ax - dy), int32 (az - dy)) array3
         else if dx \<le> dz \<and> dy \<le> dz then
           simple_z grid_to_mem (sint end2) k (x, y, z, int32 (ax - dz), int32 (ay - dz)) array3
         else Some array3)"

text \<open>Running the counting tracer \<open>N\<close> times on the same pair of endpoints.\<close>

fun trace_simple_times ::
  "nat \<Rightarrow> Vec3Ix \<Rightarrow> Vec3Ix \<Rightarrow> (int \<Rightarrow> int \<Rightarrow> int \<Rightarrow> 'm) \<Rightarrow> ('m \<Rightarrow> 'c::{plus,one})
   \<Rightarrow> ('m \<Rightarrow> 'c) option" where
  "trace_simple_times 0 start_pos end_pos grid_to_mem array3 = Some array3"
| "trace_simple_times (Suc N) start_pos end_pos grid_to_mem array3 =
     (case bresenham_trace_simple start_pos end_pos grid_to_mem array3 of
        None \<Rightarrow> None
      | Some array3' \<Rightarrow> trace_simple_times N start_pos end_pos grid_to_mem array3')"

text \<open>
  The visitor that the counting tracer has built in: it increments the counter of the
  cell and asks to continue.
\<close>

definition count_cell :: "(int \<Rightarrow> int \<Rightarrow> int \<Rightarrow> 'm) \<Rightarrow> ('m \<Rightarrow> 'c::{plus,one}) visitor3" where
  "count_cell grid_to_mem x y z array3 =
     (True, array3 (grid_to_mem x y z := array3 (grid_to_mem x y z) + 1))"

section \<open>The 2-D tracer\<close>

text \<open>
  The overload of \<^verbatim>\<open>bresenham_trace\<close> for \<^verbatim>\<open>Vec2Ix\<close>. Its visitor takes the cell
  and the flag \<^verbatim>\<open>end_cell\<close>, which both loops declare as
  \<^verbatim>\<open>bool end_cell = false;\<close> right before the call. The calls of
  \<^verbatim>\<open>ROS_INFO\<close> only log.
\<close>

type_synonym 's visitor2 = "int \<Rightarrow> int \<Rightarrow> bool \<Rightarrow> 's \<Rightarrow> bool \<times> 's"
type_synonym steps2 = "int \<times> int \<times> int \<times> int"
type_synonym vars2 = "int \<times> int \<times> int"

partial_function (option) trace2_x ::
  "'s visitor2 \<Rightarrow> int \<Rightarrow> steps2 \<Rightarrow> vars2 \<Rightarrow> 's \<Rightarrow> 's option" where
  "trace2_x fun end0 k v st =
     (case k of (sx, sy, ax, ay) \<Rightarrow>
      case v of (x, y, decy) \<Rightarrow>
      let end_cell = False;
          r = fun x y end_cell st
      in
      if \<not> fst r then Some (snd r)
      else if x = end0 then Some (snd r)
      else
        let decy1 = (if decy \<ge> 0 then int32 (decy - ax) else decy);
            y1 = (if decy \<ge> 0 then int32 (y + sy) else y)
        in trace2_x fun end0 k (int32 (x + sx), y1, int32 (decy1 + ay)) (snd r))"

partial_function (option) trace2_y ::
  "'s visitor2 \<Rightarrow> int \<Rightarrow> steps2 \<Rightarrow> vars2 \<Rightarrow> 's \<Rightarrow> 's option" where
  "trace2_y fun end1 k v st =
     (case k of (sx, sy, ax, ay) \<Rightarrow>
      case v of (x, y, decx) \<Rightarrow>
      let end_cell = False;
          r = fun x y end_cell st
      in
      if \<not> fst r then Some (snd r)
      else if y = end1 then Some (snd r)
      else
        let decx1 = (if decx \<ge> 0 then int32 (decx - ay) else decx);
            x1 = (if decx \<ge> 0 then int32 (x + sx) else x)
        in trace2_y fun end1 k (x1, int32 (y + sy), int32 (decx1 + ax)) (snd r))"

declare trace2_x.simps [code] trace2_y.simps [code]

definition bresenham_trace_2d :: "Vec2Ix \<Rightarrow> Vec2Ix \<Rightarrow> 's visitor2 \<Rightarrow> 's \<Rightarrow> 's option" where
  "bresenham_trace_2d start_pos end_pos fun st =
     (case (start_pos, end_pos) of ((start0, start1), (end0, end1)) \<Rightarrow>
      let x = int32 (sint start0);
          y = int32 (sint start1);
          (sx, dx) = sign_abs (int32 (sint (end0 - start0)));
          (sy, dy) = sign_abs (int32 (sint (end1 - start1)));
          ax = int32 (2 * dx);
          ay = int32 (2 * dy);
          k = (sx, sy, ax, ay)
      in if dy \<le> dx then
           trace2_x fun (sint end0) k (x, y, int32 (ay - dx)) st
         else if dx \<le> dy then
           trace2_y fun (sint end1) k (x, y, int32 (ax - dy)) st
         else Some st)"

text \<open>The 2-D visitor that only records the flag it is given.\<close>

definition record_flag :: "bool list visitor2" where
  "record_flag x y end_cell seen = (True, seen @ [end_cell])"

section \<open>The box test\<close>

text \<open>
  \<^verbatim>\<open>Scalar\<close> is a template parameter: the test is modelled for every type \<open>'a\<close> that
  has a subtraction, a multiplication and a comparison, with no law assumed of them, so
  that what is proved of the model in general holds of any arithmetic, floating point
  included.
\<close>

text \<open>
  Modelled from the spec: the classes \<^verbatim>\<open>Box\<close> and \<^verbatim>\<open>Ray3\<close> are declared in
  \<^verbatim>\<open>box.hpp\<close> and \<^verbatim>\<open>ray.hpp\<close>, which are not part of the source. A box presents
  \<^verbatim>\<open>bound(i)\<close>, its min corner for 0 and its max corner for 1: it is taken as that
  function from the index to a corner. A ray presents \<^verbatim>\<open>origin\<close>, \<^verbatim>\<open>invdir\<close>, the
  three sign bits \<^verbatim>\<open>sign\<close> and the mutable \<^verbatim>\<open>tmin\<close> and \<^verbatim>\<open>tmax\<close>: it is a
  record of these fields. The accessors \<^verbatim>\<open>x()\<close>, \<^verbatim>\<open>y()\<close>, \<^verbatim>\<open>z()\<close> of a point and
  \<^verbatim>\<open>boost::get<i>\<close> of the sign bits are \<open>vx\<close>, \<open>vy\<close>, \<open>vz\<close>.
\<close>

type_synonym 'a Vec3 = "'a \<times> 'a \<times> 'a"

definition vx :: "'a Vec3 \<Rightarrow> 'a" where "vx p = fst p"
definition vy :: "'a Vec3 \<Rightarrow> 'a" where "vy p = fst (snd p)"
definition vz :: "'a Vec3 \<Rightarrow> 'a" where "vz p = snd (snd p)"

type_synonym 'a Box = "int \<Rightarrow> 'a Vec3"

record 'a Ray3 =
  origin :: "'a Vec3"
  invdir :: "'a Vec3"
  sign :: "int \<times> int \<times> int"
  tmin :: 'a
  tmax :: 'a

definition aabb_ray_intersect ::
  "'a::{minus,times,ord} Box \<Rightarrow> 'a Ray3 \<Rightarrow> bool \<times> 'a Ray3" where
  "aabb_ray_intersect bound r =
     (let tmin0 = (vx (bound (vx (sign r))) - vx (origin r)) * vx (invdir r);
          tmax0 = (vx (bound (1 - vx (sign r))) - vx (origin r)) * vx (invdir r);
          tymin = (vy (bound (vy (sign r))) - vy (origin r)) * vy (invdir r);
          tymax = (vy (bound (1 - vy (sign r))) - vy (origin r)) * vy (invdir r)
      in
      if tmin0 > tymax \<or> tymin > tmax0 then (False, r)
      else
        let tmin1 = (if tymin > tmin0 then tymin else tmin0);
            tmax1 = (if tymax < tmax0 then tymax else tmax0);
            tzmin = (vz (bound (vz (sign r))) - vz (origin r)) * vz (invdir r);
            tzmax = (vz (bound (1 - vz (sign r))) - vz (origin r)) * vz (invdir r)
        in
        if tmin1 > tzmax \<or> tzmin > tmax1 then (False, r)
        else
          let tmin2 = (if tzmin > tmin1 then tzmin else tmin1);
              tmax2 = (if tzmax < tmax1 then tzmax else tmax1);
              r1 = (if tmin2 > tmin r then r\<lparr>tmin := tmin2\<rparr> else r);
              r2 = (if tmax2 < tmax r1 then r1\<lparr>tmax := tmax2\<rparr> else r1)
          in (True, r2))"

text \<open>
  The interval of ray parameters between the two planes of the box on one axis, as the
  test computes its ends (the near plane is chosen by the sign bit of the axis).
\<close>

definition slab :: "('a Vec3 \<Rightarrow> 'a) \<Rightarrow> (int \<times> int \<times> int \<Rightarrow> int)
    \<Rightarrow> 'a::{minus,times,ord} Box \<Rightarrow> 'a Ray3 \<Rightarrow> 'a \<times> 'a" where
  "slab axis pick bound r =
     ((axis (bound (pick (sign r))) - axis (origin r)) * axis (invdir r),
      (axis (bound (1 - pick (sign r))) - axis (origin r)) * axis (invdir r))"

definition inside :: "'a::ord \<Rightarrow> 'a \<times> 'a \<Rightarrow> bool" where
  "inside t i \<longleftrightarrow> fst i \<le> t \<and> t \<le> snd i"

subsection \<open>Floating-point scalars\<close>

text \<open>
  The instance of \<^verbatim>\<open>Scalar\<close> that the library uses is a floating-point type. Its
  special values are modelled as IEEE 754 has them: the two infinities, which a ray gets as
  the reciprocal of a zero direction component, and NaN, which is the product of zero and
  an infinity and the difference of two equal infinities; every comparison with NaN is
  false. The finite values are taken as real numbers: rounding, overflow of a finite
  result and the sign of zero are not modelled.
\<close>

datatype ieee = NaN | MInf | Fin real | PInf

instantiation ieee :: "{minus, times, ord}"
begin

fun minus_ieee :: "ieee \<Rightarrow> ieee \<Rightarrow> ieee" where
  "minus_ieee NaN b = NaN"
| "minus_ieee a NaN = NaN"
| "minus_ieee (Fin a) (Fin b) = Fin (a - b)"
| "minus_ieee (Fin a) PInf = MInf"
| "minus_ieee (Fin a) MInf = PInf"
| "minus_ieee PInf PInf = NaN"
| "minus_ieee PInf b = PInf"
| "minus_ieee MInf MInf = NaN"
| "minus_ieee MInf b = MInf"

fun times_ieee :: "ieee \<Rightarrow> ieee \<Rightarrow> ieee" where
  "times_ieee NaN b = NaN"
| "times_ieee a NaN = NaN"
| "times_ieee (Fin a) (Fin b) = Fin (a * b)"
| "times_ieee (Fin a) PInf = (if a = 0 then NaN else if 0 < a then PInf else MInf)"
| "times_ieee (Fin a) MInf = (if a = 0 then NaN else if 0 < a then MInf else PInf)"
| "times_ieee PInf (Fin b) = (if b = 0 then NaN else if 0 < b then PInf else MInf)"
| "times_ieee MInf (Fin b) = (if b = 0 then NaN else if 0 < b then MInf else PInf)"
| "times_ieee PInf PInf = PInf"
| "times_ieee MInf MInf = PInf"
| "times_ieee PInf MInf = MInf"
| "times_ieee MInf PInf = MInf"

fun less_ieee :: "ieee \<Rightarrow> ieee \<Rightarrow> bool" where
  "less_ieee NaN b = False"
| "less_ieee a NaN = False"
| "less_ieee a MInf = False"
| "less_ieee PInf b = False"
| "less_ieee MInf b = True"
| "less_ieee (Fin a) (Fin b) = (a < b)"
| "less_ieee (Fin a) PInf = True"

definition less_eq_ieee :: "ieee \<Rightarrow> ieee \<Rightarrow> bool" where
  "less_eq_ieee a b \<longleftrightarrow> a < b \<or> (a = b \<and> a \<noteq> NaN)"

instance ..

end


text \<open>
  The three axes, the component of a point (or of the sign bits) on an axis, the other two
  axes in the order in which the test takes them, and the slab of an axis.
\<close>

datatype axis = AxisX | AxisY | AxisZ








section \<open>Notions used to state the properties\<close>

type_synonym cell = "int \<times> int \<times> int"

text \<open>The grid coordinate as the triple of integers it denotes.\<close>

definition cell_of :: "Vec3Ix \<Rightarrow> cell" where
  "cell_of p = (case p of (p0, p1, p2) \<Rightarrow> (sint p0, sint p1, sint p2))"

text \<open>
  The endpoints that the \<^verbatim>\<open>int\<close> locals of the tracers can hold: every component fits
  in 32 bits, and every difference is below \<open>2 ^ 30\<close> in absolute value, so that its
  double (\<^verbatim>\<open>ax = 2*dx\<close>) fits as well.
\<close>

definition in32 :: "int \<Rightarrow> bool" where
  "in32 v \<longleftrightarrow> - (2 ^ 31) \<le> v \<and> v < 2 ^ 31"

definition fits_axis :: "64 word \<Rightarrow> 64 word \<Rightarrow> bool" where
  "fits_axis s e \<longleftrightarrow> in32 (sint s) \<and> in32 (sint e) \<and> \<bar>sint e - sint s\<bar> < 2 ^ 30"

definition fits_int :: "Vec3Ix \<Rightarrow> Vec3Ix \<Rightarrow> bool" where
  "fits_int start_pos end_pos =
     (case (start_pos, end_pos) of ((start0, start1, start2), (end0, end1, end2)) \<Rightarrow>
        fits_axis start0 end0 \<and> fits_axis start1 end1 \<and> fits_axis start2 end2)"

text \<open>The Chebyshev distance of two cells, and the relation of a cell to the next one.\<close>

definition chebyshev :: "cell \<Rightarrow> cell \<Rightarrow> nat" where
  "chebyshev a b =
     (case (a, b) of ((x, y, z), (x', y', z')) \<Rightarrow>
        nat (max (max \<bar>x' - x\<bar> \<bar>y' - y\<bar>) \<bar>z' - z\<bar>))"

definition one_step :: "cell \<Rightarrow> cell \<Rightarrow> bool" where
  "one_step a b =
     (case (a, b) of ((x, y, z), (x', y', z')) \<Rightarrow>
        \<bar>x' - x\<bar> \<le> 1 \<and> \<bar>y' - y\<bar> \<le> 1 \<and> \<bar>z' - z\<bar> \<le> 1 \<and> a \<noteq> b)"

fun chain :: "cell list \<Rightarrow> bool" where
  "chain (a # b # cs) = (one_step a b \<and> chain (b # cs))"
| "chain cs = True"

text \<open>
  Calling a visitor on the cells of a list in order, until it answers \<open>False\<close> or
  the list ends.
\<close>

fun visit :: "'s visitor3 \<Rightarrow> cell list \<Rightarrow> 's \<Rightarrow> 's" where
  "visit f [] st = st"
| "visit f (c # cs) st =
     (case c of (x, y, z) \<Rightarrow>
        let r = f x y z st in if fst r then visit f cs (snd r) else snd r)"




text \<open>
  The two sequences of coordinates that a loop produces in \<open>n\<close> further steps: on its
  driving axis, and on another axis with the decision variable \<open>dec\<close>
  (\<open>aM\<close> and \<open>am\<close> are the doubled differences of the driving and of the other axis).
\<close>

fun major :: "nat \<Rightarrow> int \<Rightarrow> int \<Rightarrow> int list" where
  "major 0 s u = [u]"
| "major (Suc n) s u = u # major n s (u + s)"

fun minor :: "nat \<Rightarrow> int \<Rightarrow> int \<Rightarrow> int \<Rightarrow> int \<Rightarrow> int \<Rightarrow> int list" where
  "minor 0 s aM am v dec = [v]"
| "minor (Suc n) s aM am v dec =
     v # (if dec \<ge> 0 then minor n s aM am (v + s) (dec - aM + am)
          else minor n s aM am v (dec + am))"

text \<open>
  The path of the tracer computed in the integers, without the 32-bit limits: the
  driving axis is chosen as in the source (x before y before z).
\<close>

definition line3 :: "cell \<Rightarrow> cell \<Rightarrow> cell list" where
  "line3 a b =
     (case (a, b) of ((x, y, z), (ex, ey, ez)) \<Rightarrow>
      let dx = \<bar>ex - x\<bar>; dy = \<bar>ey - y\<bar>; dz = \<bar>ez - z\<bar>;
          sx = sgn (ex - x); sy = sgn (ey - y); sz = sgn (ez - z)
      in if dy \<le> dx \<and> dz \<le> dx then
           zip (major (nat dx) sx x)
             (zip (minor (nat dx) sy (2 * dx) (2 * dy) y (2 * dy - dx))
                  (minor (nat dx) sz (2 * dx) (2 * dz) z (2 * dz - dx)))
         else if dx \<le> dy \<and> dz \<le> dy then
           zip (minor (nat dy) sx (2 * dy) (2 * dx) x (2 * dx - dy))
             (zip (major (nat dy) sy y)
                  (minor (nat dy) sz (2 * dy) (2 * dz) z (2 * dz - dy)))
         else
           zip (minor (nat dz) sx (2 * dz) (2 * dx) x (2 * dx - dz))
             (zip (minor (nat dz) sy (2 * dz) (2 * dy) y (2 * dy - dz))
                  (major (nat dz) sz z)))"

definition sign3 :: "int \<Rightarrow> bool" where
  "sign3 s \<longleftrightarrow> s = 1 \<or> s = - 1 \<or> s = 0"

text \<open>
  The loop invariants with \<open>n\<close> steps to go: for the driving axis, and for another axis
  (\<open>m\<close> is the number of steps it still has to make).
\<close>

definition major_ok :: "int \<Rightarrow> int \<Rightarrow> nat \<Rightarrow> int \<Rightarrow> bool" where
  "major_ok su eu n u \<longleftrightarrow>
     sign3 su \<and> eu = u + su * int n \<and> (0 < n \<longrightarrow> su \<noteq> 0) \<and> in32 u \<and> in32 eu"

definition minor_ok :: "int \<Rightarrow> int \<Rightarrow> int \<Rightarrow> int \<Rightarrow> nat \<Rightarrow> int \<Rightarrow> int \<Rightarrow> bool" where
  "minor_ok du dv sv ev n v dec \<longleftrightarrow>
     0 \<le> dv \<and> dv \<le> du \<and> du < 2 ^ 30 \<and> sign3 sv \<and> (dv = 0 \<longrightarrow> sv = 0)
     \<and> in32 v \<and> in32 ev \<and> int n \<le> du
     \<and> (\<exists>m\<ge>0. ev = v + sv * m \<and> dec = 2 * du * m - 2 * dv * int n + 2 * dv - du)
     \<and> 2 * dv - 2 * du \<le> dec \<and> (dec < 2 * dv \<or> du = 0)"

subsection \<open>Arithmetic of the locals\<close>

lemma int32_id: "in32 v \<Longrightarrow> int32 v = v"
  by (simp add: int32_def in32_def)

lemma sint_diff:
  fixes s e :: "64 word"
  assumes "fits_axis s e"
  shows "sint (e - s) = sint e - sint s"
proof -
  have "sint (e - s) = signed_take_bit (LENGTH(64) - 1) (sint e - sint s)"
    by (simp add: sint_word_ariths)
  also have "\<dots> = sint e - sint s"
    using assms by (simp add: signed_take_bit_int_eq_self_iff fits_axis_def in32_def)
  finally show ?thesis .
qed

lemma sign_abs_in: "\<bar>d\<bar> < 2 ^ 30 \<Longrightarrow> sign_abs d = (sgn d, \<bar>d\<bar>)"
  by (auto simp: sign_abs_def int32_id in32_def)

lemma major_ok_step:
  assumes "major_ok su eu (Suc n) u"
  shows "major_ok su eu n (u + su)" "u \<noteq> eu" "in32 (u + su)"
  using assms by (auto simp: major_ok_def sign3_def in32_def algebra_simps)

lemma major_ok_0: "major_ok su eu 0 u \<Longrightarrow> u = eu"
  by (simp add: major_ok_def)

lemma minor_ok_pos:
  assumes "minor_ok du dv sv ev (Suc n) v dec" "0 \<le> dec"
  shows "minor_ok du dv sv ev n (v + sv) (dec - 2 * du + 2 * dv)"
    "in32 (v + sv)" "in32 (dec - 2 * du)" "in32 (dec - 2 * du + 2 * dv)"
proof -
  from assms(1) obtain m where m: "0 \<le> m" "ev = v + sv * m"
      "dec = 2 * du * m - 2 * dv * int (Suc n) + 2 * dv - du"
    and c: "0 \<le> dv" "dv \<le> du" "du < 2 ^ 30" "sign3 sv" "in32 v" "in32 ev" "int (Suc n) \<le> du"
      "2 * dv - 2 * du \<le> dec" "dec < 2 * dv \<or> du = 0" "dv = 0 \<longrightarrow> sv = 0"
    unfolding minor_ok_def by blast
  have du: "0 < du" using c by simp
  have "0 \<le> dv * int n" using c by simp
  with m(3) assms(2) have "du \<le> 2 * du * m" by (simp add: algebra_simps)
  then have "m \<noteq> 0" using du by auto
  with m(1) have m1: "1 \<le> m" by simp
  have e: "ev = (v + sv) + sv * (m - 1)" using m(2) by (simp add: algebra_simps)
  have d: "dec - 2 * du + 2 * dv = 2 * du * (m - 1) - 2 * dv * int n + 2 * dv - du"
    using m(3) by (simp add: algebra_simps)
  have r: "in32 (v + sv)"
    using c(4,5,6) m(2) m1 by (auto simp: sign3_def in32_def)
  show "minor_ok du dv sv ev n (v + sv) (dec - 2 * du + 2 * dv)"
    unfolding minor_ok_def using c du m1 e d r assms(2)
    by (intro conjI exI[of _ "m - 1"]) auto
  show "in32 (v + sv)" by (rule r)
  show "in32 (dec - 2 * du)" "in32 (dec - 2 * du + 2 * dv)"
    using c du assms(2) by (auto simp: in32_def)
qed

lemma minor_ok_neg:
  assumes "minor_ok du dv sv ev (Suc n) v dec" "\<not> 0 \<le> dec"
  shows "minor_ok du dv sv ev n v (dec + 2 * dv)" "in32 (dec + 2 * dv)"
proof -
  from assms(1) obtain m where m: "0 \<le> m" "ev = v + sv * m"
      "dec = 2 * du * m - 2 * dv * int (Suc n) + 2 * dv - du"
    and c: "0 \<le> dv" "dv \<le> du" "du < 2 ^ 30" "sign3 sv" "in32 v" "in32 ev" "int (Suc n) \<le> du"
      "2 * dv - 2 * du \<le> dec" "dec < 2 * dv \<or> du = 0" "dv = 0 \<longrightarrow> sv = 0"
    unfolding minor_ok_def by blast
  have d: "dec + 2 * dv = 2 * du * m - 2 * dv * int n + 2 * dv - du"
    using m(3) by (simp add: algebra_simps)
  show "minor_ok du dv sv ev n v (dec + 2 * dv)"
    unfolding minor_ok_def using c m(1,2) d assms(2)
    by (intro conjI exI[of _ m]) auto
  show "in32 (dec + 2 * dv)"
    using c assms(2) by (auto simp: in32_def)
qed

lemma minor_ok_0:
  assumes "minor_ok du dv sv ev 0 v dec"
  shows "v = ev"
proof -
  from assms(1) obtain m where m: "0 \<le> m" "ev = v + sv * m"
      "dec = 2 * du * m - 2 * dv * int 0 + 2 * dv - du"
    and c: "0 \<le> dv" "dv \<le> du" "2 * dv - 2 * du \<le> dec" "dec < 2 * dv \<or> du = 0"
      "dv = 0 \<longrightarrow> sv = 0"
    unfolding minor_ok_def by blast
  show ?thesis
  proof (cases "du = 0")
    case True
    then show ?thesis using c m(2) by simp
  next
    case False
    then have du: "0 < du" using c by simp
    have lt: "2 * du * m < du" using m(3) c(4) False by simp
    have "m < 1"
    proof (rule ccontr)
      assume "\<not> m < 1"
      then have "du * 1 \<le> du * m" using du by (intro mult_left_mono) auto
      with lt du show False by simp
    qed
    with m(1) have "m = 0" by simp
    then show ?thesis using m(2) by simp
  qed
qed

lemma major_ok_init:
  assumes "fits_axis s e"
  shows "major_ok (sgn (sint e - sint s)) (sint e) (nat \<bar>sint e - sint s\<bar>) (sint s)"
  using assms
  by (auto simp: major_ok_def fits_axis_def sign3_def sgn_if)

lemma minor_ok_init:
  assumes "fits_axis s e" "\<bar>sint e - sint s\<bar> \<le> du" "du < 2 ^ 30"
  shows "minor_ok du \<bar>sint e - sint s\<bar> (sgn (sint e - sint s)) (sint e) (nat du) (sint s)
           (2 * \<bar>sint e - sint s\<bar> - du)"
  unfolding minor_ok_def using assms
  by (intro conjI exI[of _ "\<bar>sint e - sint s\<bar>"])
    (auto simp: fits_axis_def sign3_def sgn_if algebra_simps)

subsection \<open>The loops on endpoints that fit\<close>

lemma trace_x_unfold:
  "trace_x fun end0 (sx, sy, sz, ax, ay, az) (x, y, z, decy, decz) st =
     (let r = fun x y z st in
      if \<not> fst r then Some (snd r)
      else if x = end0 then Some (snd r)
      else
        let decy1 = (if decy \<ge> 0 then int32 (decy - ax) else decy);
            y1 = (if decy \<ge> 0 then int32 (y + sy) else y);
            decz1 = (if decz \<ge> 0 then int32 (decz - ax) else decz);
            z1 = (if decz \<ge> 0 then int32 (z + sz) else z)
        in trace_x fun end0 (sx, sy, sz, ax, ay, az)
             (int32 (x + sx), y1, z1, int32 (decy1 + ay), int32 (decz1 + az)) (snd r))"
  by (subst trace_x.simps) simp

lemma trace_y_unfold:
  "trace_y fun end1 (sx, sy, sz, ax, ay, az) (x, y, z, decx, decz) st =
     (let r = fun x y z st in
      if \<not> fst r then Some (snd r)
      else if y = end1 then Some (snd r)
      else
        let decx1 = (if decx \<ge> 0 then int32 (decx - ay) else decx);
            x1 = (if decx \<ge> 0 then int32 (x + sx) else x);
            decz1 = (if decz \<ge> 0 then int32 (decz - ay) else decz);
            z1 = (if decz \<ge> 0 then int32 (z + sz) else z)
        in trace_y fun end1 (sx, sy, sz, ax, ay, az)
             (x1, int32 (y + sy), z1, int32 (decx1 + ax), int32 (decz1 + az)) (snd r))"
  by (subst trace_y.simps) simp

lemma trace_z_unfold:
  "trace_z fun end2 (sx, sy, sz, ax, ay, az) (x, y, z, decx, decy) st =
     (let r = fun x y z st in
      if \<not> fst r then Some (snd r)
      else if z = end2 then Some (snd r)
      else
        let decx1 = (if decx \<ge> 0 then int32 (decx - az) else decx);
            x1 = (if decx \<ge> 0 then int32 (x + sx) else x);
            decy1 = (if decy \<ge> 0 then int32 (decy - az) else decy);
            y1 = (if decy \<ge> 0 then int32 (y + sy) else y)
        in trace_z fun end2 (sx, sy, sz, ax, ay, az)
             (x1, y1, int32 (z + sz), int32 (decx1 + ax), int32 (decy1 + ay)) (snd r))"
  by (subst trace_z.simps) simp

text \<open>
  One step of another axis, whatever the sign of its decision variable: what the loop
  computes with its wrapped operations is the next state of \<open>minor\<close>.
\<close>

lemma minor_step:
  assumes "minor_ok du dv sv ev (Suc n) v dec"
  shows "minor_ok du dv sv ev n (if 0 \<le> dec then int32 (v + sv) else v)
           (int32 ((if 0 \<le> dec then int32 (dec - 2 * du) else dec) + 2 * dv))"
    and "minor (Suc n) sv (2 * du) (2 * dv) v dec =
           v # minor n sv (2 * du) (2 * dv) (if 0 \<le> dec then int32 (v + sv) else v)
             (int32 ((if 0 \<le> dec then int32 (dec - 2 * du) else dec) + 2 * dv))"
  using minor_ok_pos[OF assms] minor_ok_neg[OF assms]
  by (auto simp: int32_id)

lemma major_step:
  assumes "major_ok su eu (Suc n) u"
  shows "major_ok su eu n (int32 (u + su))" "u \<noteq> eu"
    "major (Suc n) su u = u # major n su (int32 (u + su))"
  using major_ok_step[OF assms] by (auto simp: int32_id)

lemma trace_x_run:
  "major_ok sx end0 n x \<Longrightarrow> minor_ok dx dy sy ey n y decy \<Longrightarrow> minor_ok dx dz sz ez n z decz \<Longrightarrow>
   trace_x record_cell end0 (sx, sy, sz, 2 * dx, 2 * dy, 2 * dz) (x, y, z, decy, decz) seen =
     Some (seen @ zip (major n sx x)
       (zip (minor n sy (2 * dx) (2 * dy) y decy) (minor n sz (2 * dx) (2 * dz) z decz)))"
proof (induction n arbitrary: x y z decy decz seen)
  case 0
  then show ?case
    by (subst trace_x_unfold) (simp add: record_cell_def major_ok_0)
next
  case (Suc n)
  note mj = major_step[OF Suc.prems(1)]
  note my = minor_step[OF Suc.prems(2)]
  note mz = minor_step[OF Suc.prems(3)]
  show ?case
    apply (subst trace_x_unfold)
    apply (simp only: Let_def record_cell_def fst_conv snd_conv not_True_eq_False if_False mj(2)
        Suc.IH[OF mj(1) my(1) mz(1)] mj(3) my(2) mz(2))
    apply simp
    done
qed

lemma trace_y_run:
  "major_ok sy end1 n y \<Longrightarrow> minor_ok dy dx sx ex n x decx \<Longrightarrow> minor_ok dy dz sz ez n z decz \<Longrightarrow>
   trace_y record_cell end1 (sx, sy, sz, 2 * dx, 2 * dy, 2 * dz) (x, y, z, decx, decz) seen =
     Some (seen @ zip (minor n sx (2 * dy) (2 * dx) x decx)
       (zip (major n sy y) (minor n sz (2 * dy) (2 * dz) z decz)))"
proof (induction n arbitrary: x y z decx decz seen)
  case 0
  then show ?case
    by (subst trace_y_unfold) (simp add: record_cell_def major_ok_0)
next
  case (Suc n)
  note mj = major_step[OF Suc.prems(1)]
  note mx = minor_step[OF Suc.prems(2)]
  note mz = minor_step[OF Suc.prems(3)]
  show ?case
    apply (subst trace_y_unfold)
    apply (simp only: Let_def record_cell_def fst_conv snd_conv not_True_eq_False if_False mj(2)
        Suc.IH[OF mj(1) mx(1) mz(1)] mj(3) mx(2) mz(2))
    apply simp
    done
qed

lemma trace_z_run:
  "major_ok sz end2 n z \<Longrightarrow> minor_ok dz dx sx ex n x decx \<Longrightarrow> minor_ok dz dy sy ey n y decy \<Longrightarrow>
   trace_z record_cell end2 (sx, sy, sz, 2 * dx, 2 * dy, 2 * dz) (x, y, z, decx, decy) seen =
     Some (seen @ zip (minor n sx (2 * dz) (2 * dx) x decx)
       (zip (minor n sy (2 * dz) (2 * dy) y decy) (major n sz z)))"
proof (induction n arbitrary: x y z decx decy seen)
  case 0
  then show ?case
    by (subst trace_z_unfold) (simp add: record_cell_def major_ok_0)
next
  case (Suc n)
  note mj = major_step[OF Suc.prems(1)]
  note mx = minor_step[OF Suc.prems(2)]
  note my = minor_step[OF Suc.prems(3)]
  show ?case
    apply (subst trace_z_unfold)
    apply (simp only: Let_def record_cell_def fst_conv snd_conv not_True_eq_False if_False mj(2)
        Suc.IH[OF mj(1) mx(1) my(1)] mj(3) mx(2) my(2))
    apply simp
    done
qed

lemma fits_axis_int32:
  assumes "fits_axis s e"
  shows "int32 (sint s) = sint s" "int32 (sint (e - s)) = sint e - sint s"
    "sign_abs (sint e - sint s) = (sgn (sint e - sint s), \<bar>sint e - sint s\<bar>)"
    "int32 (2 * \<bar>sint e - sint s\<bar>) = 2 * \<bar>sint e - sint s\<bar>"
proof -
  have r: "in32 (sint s)" "in32 (sint e - sint s)" "in32 (2 * \<bar>sint e - sint s\<bar>)"
    "\<bar>sint e - sint s\<bar> < 2 ^ 30"
    using assms by (auto simp: fits_axis_def in32_def)
  show "int32 (sint s) = sint s" "int32 (sint (e - s)) = sint e - sint s"
    "int32 (2 * \<bar>sint e - sint s\<bar>) = 2 * \<bar>sint e - sint s\<bar>"
    using r by (simp_all add: sint_diff[OF assms] int32_id)
  show "sign_abs (sint e - sint s) = (sgn (sint e - sint s), \<bar>sint e - sint s\<bar>)"
    using r(4) by (rule sign_abs_in)
qed

lemma int32_dec:
  assumes "0 \<le> dv" "dv \<le> du" "du < 2 ^ 30"
  shows "int32 (2 * dv - du) = 2 * dv - du"
  using assms by (intro int32_id) (auto simp: in32_def)

lemma bresenham_trace_fits:
  assumes "fits_int start_pos end_pos"
  shows "bresenham_trace start_pos end_pos record_cell [] =
           Some (line3 (cell_of start_pos) (cell_of end_pos))"
proof -
  obtain s0 s1 s2 e0 e1 e2 where p: "start_pos = (s0, s1, s2)" "end_pos = (e0, e1, e2)"
    by (cases start_pos, cases end_pos) auto
  from assms p have f: "fits_axis s0 e0" "fits_axis s1 e1" "fits_axis s2 e2"
    by (simp_all add: fits_int_def)
  define dx dy dz where "dx = \<bar>sint e0 - sint s0\<bar>" and "dy = \<bar>sint e1 - sint s1\<bar>"
    and "dz = \<bar>sint e2 - sint s2\<bar>"
  define k where "k = (sgn (sint e0 - sint s0), sgn (sint e1 - sint s1), sgn (sint e2 - sint s2),
         2 * dx, 2 * dy, 2 * dz)"
  have b: "dx < 2 ^ 30" "dy < 2 ^ 30" "dz < 2 ^ 30" "0 \<le> dx" "0 \<le> dy" "0 \<le> dz"
    using f by (simp_all add: fits_axis_def dx_def dy_def dz_def)
  note i32 = fits_axis_int32[OF f(1), folded dx_def] fits_axis_int32[OF f(2), folded dy_def]
    fits_axis_int32[OF f(3), folded dz_def]
  have tr: "bresenham_trace start_pos end_pos record_cell [] =
      (if dy \<le> dx \<and> dz \<le> dx then
         trace_x record_cell (sint e0) k
           (sint s0, sint s1, sint s2, int32 (2 * dy - dx), int32 (2 * dz - dx)) []
       else if dx \<le> dy \<and> dz \<le> dy then
         trace_y record_cell (sint e1) k
           (sint s0, sint s1, sint s2, int32 (2 * dx - dy), int32 (2 * dz - dy)) []
       else if dx \<le> dz \<and> dy \<le> dz then
         trace_z record_cell (sint e2) k
           (sint s0, sint s1, sint s2, int32 (2 * dx - dz), int32 (2 * dy - dz)) []
       else Some [])"
    by (simp only: p bresenham_trace_def Let_def prod.case i32 k_def)
  have ln: "line3 (cell_of start_pos) (cell_of end_pos) =
      (if dy \<le> dx \<and> dz \<le> dx then
           zip (major (nat dx) (sgn (sint e0 - sint s0)) (sint s0))
             (zip (minor (nat dx) (sgn (sint e1 - sint s1)) (2 * dx) (2 * dy) (sint s1) (2 * dy - dx))
                  (minor (nat dx) (sgn (sint e2 - sint s2)) (2 * dx) (2 * dz) (sint s2) (2 * dz - dx)))
         else if dx \<le> dy \<and> dz \<le> dy then
           zip (minor (nat dy) (sgn (sint e0 - sint s0)) (2 * dy) (2 * dx) (sint s0) (2 * dx - dy))
             (zip (major (nat dy) (sgn (sint e1 - sint s1)) (sint s1))
                  (minor (nat dy) (sgn (sint e2 - sint s2)) (2 * dy) (2 * dz) (sint s2) (2 * dz - dy)))
         else
           zip (minor (nat dz) (sgn (sint e0 - sint s0)) (2 * dz) (2 * dx) (sint s0) (2 * dx - dz))
             (zip (minor (nat dz) (sgn (sint e1 - sint s1)) (2 * dz) (2 * dy) (sint s1) (2 * dy - dz))
                  (major (nat dz) (sgn (sint e2 - sint s2)) (sint s2))))"
    by (simp only: p line3_def cell_of_def Let_def prod.case dx_def dy_def dz_def)
  consider (x) "dy \<le> dx \<and> dz \<le> dx"
    | (y) "\<not> (dy \<le> dx \<and> dz \<le> dx)" "dx \<le> dy \<and> dz \<le> dy"
    | (z) "\<not> (dy \<le> dx \<and> dz \<le> dx)" "\<not> (dx \<le> dy \<and> dz \<le> dy)" "dx \<le> dz \<and> dy \<le> dz"
    by linarith
  then show ?thesis
  proof cases
    case x
    have d: "int32 (2 * dy - dx) = 2 * dy - dx" "int32 (2 * dz - dx) = 2 * dz - dx"
      using x b by (simp_all add: int32_dec)
    have "trace_x record_cell (sint e0) k
        (sint s0, sint s1, sint s2, 2 * dy - dx, 2 * dz - dx) [] =
      Some ([] @ zip (major (nat dx) (sgn (sint e0 - sint s0)) (sint s0))
        (zip (minor (nat dx) (sgn (sint e1 - sint s1)) (2 * dx) (2 * dy) (sint s1) (2 * dy - dx))
             (minor (nat dx) (sgn (sint e2 - sint s2)) (2 * dx) (2 * dz) (sint s2) (2 * dz - dx))))"
      unfolding dx_def dy_def dz_def k_def
      by (rule trace_x_run[OF major_ok_init[OF f(1)] minor_ok_init[OF f(2)] minor_ok_init[OF f(3)]])
        (use x b in \<open>simp_all add: dx_def dy_def dz_def\<close>)
    then show ?thesis
      by (simp only: tr ln x if_True d append_Nil simp_thms)
  next
    case y
    have d: "int32 (2 * dx - dy) = 2 * dx - dy" "int32 (2 * dz - dy) = 2 * dz - dy"
      using y b by (simp_all add: int32_dec)
    have "trace_y record_cell (sint e1) k
        (sint s0, sint s1, sint s2, 2 * dx - dy, 2 * dz - dy) [] =
      Some ([] @ zip (minor (nat dy) (sgn (sint e0 - sint s0)) (2 * dy) (2 * dx) (sint s0) (2 * dx - dy))
        (zip (major (nat dy) (sgn (sint e1 - sint s1)) (sint s1))
             (minor (nat dy) (sgn (sint e2 - sint s2)) (2 * dy) (2 * dz) (sint s2) (2 * dz - dy))))"
      unfolding dx_def dy_def dz_def k_def
      by (rule trace_y_run[OF major_ok_init[OF f(2)] minor_ok_init[OF f(1)] minor_ok_init[OF f(3)]])
        (use y b in \<open>simp_all add: dx_def dy_def dz_def\<close>)
    then show ?thesis
      by (simp only: tr ln y if_True if_False d append_Nil simp_thms)
  next
    case z
    have d: "int32 (2 * dx - dz) = 2 * dx - dz" "int32 (2 * dy - dz) = 2 * dy - dz"
      using z b by (simp_all add: int32_dec)
    have "trace_z record_cell (sint e2) k
        (sint s0, sint s1, sint s2, 2 * dx - dz, 2 * dy - dz) [] =
      Some ([] @ zip (minor (nat dz) (sgn (sint e0 - sint s0)) (2 * dz) (2 * dx) (sint s0) (2 * dx - dz))
        (zip (minor (nat dz) (sgn (sint e1 - sint s1)) (2 * dz) (2 * dy) (sint s1) (2 * dy - dz))
             (major (nat dz) (sgn (sint e2 - sint s2)) (sint s2))))"
      unfolding dx_def dy_def dz_def k_def
      by (rule trace_z_run[OF major_ok_init[OF f(3)] minor_ok_init[OF f(1)] minor_ok_init[OF f(2)]])
        (use z b in \<open>simp_all add: dx_def dy_def dz_def\<close>)
    then show ?thesis
      by (simp only: tr ln z if_True if_False d append_Nil simp_thms)
  qed
qed

subsection \<open>The shape of the path\<close>

lemma length_major [simp]: "length (major n s u) = Suc n"
  by (induction n arbitrary: u) auto

lemma length_minor [simp]: "length (minor n s aM am v dec) = Suc n"
  by (induction n arbitrary: v dec) auto

lemma hd_major [simp]: "hd (major n s u) = u"
  by (cases n) auto

lemma hd_minor [simp]: "hd (minor n s aM am v dec) = v"
  by (cases n) auto

lemma major_not_Nil [simp]: "major n s u \<noteq> []"
  by (cases n) auto

lemma minor_not_Nil [simp]: "minor n s aM am v dec \<noteq> []"
  by (cases n) auto

lemma nth_major: "i \<le> n \<Longrightarrow> major n s u ! i = u + s * int i"
proof (induction n arbitrary: u i)
  case 0
  then show ?case by simp
next
  case (Suc n)
  then show ?case by (cases i) (auto simp: algebra_simps)
qed

lemma last_major: "last (major n s u) = u + s * int n"
  using nth_major[of n n s u] by (simp add: last_conv_nth)

lemma distinct_major: "s \<noteq> 0 \<Longrightarrow> distinct (major n s u)"
  by (auto simp: distinct_conv_nth nth_major)

lemma last_minor:
  "minor_ok du dv sv ev n v dec \<Longrightarrow> last (minor n sv (2 * du) (2 * dv) v dec) = ev"
proof (induction n arbitrary: v dec)
  case 0
  then show ?case using minor_ok_0 by simp
next
  case (Suc n)
  show ?case
  proof (cases "0 \<le> dec")
    case True
    from Suc.IH[OF minor_ok_pos(1)[OF Suc.prems True]] True show ?thesis by simp
  next
    case False
    from Suc.IH[OF minor_ok_neg(1)[OF Suc.prems False]] False show ?thesis by simp
  qed
qed

lemma slow_minor:
  "sign3 s \<Longrightarrow> i < n \<Longrightarrow>
     \<bar>minor n s aM am v dec ! Suc i - minor n s aM am v dec ! i\<bar> \<le> 1"
proof (induction n arbitrary: v dec i)
  case 0
  then show ?case by simp
next
  case (Suc n)
  show ?case
  proof (cases i)
    case 0
    then show ?thesis
      using Suc.prems(1) by (cases n) (auto simp: sign3_def nth_Cons' hd_conv_nth[symmetric])
  next
    case (Suc j)
    then show ?thesis using Suc.IH[of j] Suc.prems by auto
  qed
qed

lemma chain_nth: "chain cs \<longleftrightarrow> (\<forall>i. Suc i < length cs \<longrightarrow> one_step (cs ! i) (cs ! Suc i))"
proof (induction cs rule: chain.induct)
  case (1 a b cs)
  show ?case
  proof
    assume l: "chain (a # b # cs)"
    show "\<forall>i. Suc i < length (a # b # cs) \<longrightarrow> one_step ((a # b # cs) ! i) ((a # b # cs) ! Suc i)"
    proof (intro allI impI)
      fix i assume "Suc i < length (a # b # cs)"
      then show "one_step ((a # b # cs) ! i) ((a # b # cs) ! Suc i)"
        using l 1 by (cases i) auto
    qed
  next
    assume r: "\<forall>i. Suc i < length (a # b # cs) \<longrightarrow> one_step ((a # b # cs) ! i) ((a # b # cs) ! Suc i)"
    then have "one_step a b" by (auto dest: spec[of _ 0])
    moreover have "\<forall>i. Suc i < length (b # cs) \<longrightarrow> one_step ((b # cs) ! i) ((b # cs) ! Suc i)"
      using r by (auto dest: spec[of _ "Suc _"])
    ultimately show "chain (a # b # cs)" using 1 by simp
  qed
qed auto

lemma zip3_props:
  assumes len: "length A = Suc n" "length B = Suc n" "length C = Suc n"
    and slow: "\<forall>i<n. \<bar>A ! Suc i - A ! i\<bar> \<le> 1" "\<forall>i<n. \<bar>B ! Suc i - B ! i\<bar> \<le> 1"
      "\<forall>i<n. \<bar>C ! Suc i - C ! i\<bar> \<le> 1"
    and moves: "0 < n \<Longrightarrow> distinct A \<or> distinct B \<or> distinct C"
  shows "length (zip A (zip B C)) = Suc n"
    and "hd (zip A (zip B C)) = (hd A, hd B, hd C)"
    and "last (zip A (zip B C)) = (last A, last B, last C)"
    and "chain (zip A (zip B C))"
    and "distinct (zip A (zip B C))"
proof -
  have ne: "A \<noteq> []" "B \<noteq> []" "C \<noteq> []" "zip B C \<noteq> []" using len by auto
  show "length (zip A (zip B C)) = Suc n" using len by simp
  show "hd (zip A (zip B C)) = (hd A, hd B, hd C)"
    using ne by (simp add: hd_zip)
  show "last (zip A (zip B C)) = (last A, last B, last C)"
    using ne len by (simp add: last_zip)
  show d: "distinct (zip A (zip B C))"
  proof (cases "0 < n")
    case True
    from moves[OF True] show ?thesis
      by (auto intro: distinct_zipI1 distinct_zipI2)
  next
    case False
    then have "length (zip A (zip B C)) = 1" using len by simp
    then show ?thesis by (cases "zip A (zip B C)") auto
  qed
  show "chain (zip A (zip B C))"
    unfolding chain_nth
  proof (intro allI impI)
    fix i assume "Suc i < length (zip A (zip B C))"
    then have i: "i < n" using len by simp
    have "zip A (zip B C) ! i \<noteq> zip A (zip B C) ! Suc i"
      using d i len by (auto simp: distinct_conv_nth)
    then show "one_step (zip A (zip B C) ! i) (zip A (zip B C) ! Suc i)"
      using i len slow by (simp add: one_step_def)
  qed
qed

lemma line3_props:
  assumes "fits_int start_pos end_pos"
  defines "cells \<equiv> line3 (cell_of start_pos) (cell_of end_pos)"
  shows "length cells = chebyshev (cell_of start_pos) (cell_of end_pos) + 1"
    and "hd cells = cell_of start_pos"
    and "last cells = cell_of end_pos"
    and "chain cells"
    and "distinct cells"
proof -
  obtain s0 s1 s2 e0 e1 e2 where p: "start_pos = (s0, s1, s2)" "end_pos = (e0, e1, e2)"
    by (cases start_pos, cases end_pos) auto
  from assms p have f: "fits_axis s0 e0" "fits_axis s1 e1" "fits_axis s2 e2"
    by (simp_all add: fits_int_def)
  define dx dy dz where "dx = \<bar>sint e0 - sint s0\<bar>" and "dy = \<bar>sint e1 - sint s1\<bar>"
    and "dz = \<bar>sint e2 - sint s2\<bar>"
  define sx sy sz where "sx = sgn (sint e0 - sint s0)" and "sy = sgn (sint e1 - sint s1)"
    and "sz = sgn (sint e2 - sint s2)"
  have b: "dx < 2 ^ 30" "dy < 2 ^ 30" "dz < 2 ^ 30" "0 \<le> dx" "0 \<le> dy" "0 \<le> dz"
    using f by (simp_all add: fits_axis_def dx_def dy_def dz_def)
  have s3: "sign3 sx" "sign3 sy" "sign3 sz"
    by (simp_all add: sign3_def sx_def sy_def sz_def sgn_if)
  have nz: "0 < dx \<Longrightarrow> sx \<noteq> 0" "0 < dy \<Longrightarrow> sy \<noteq> 0" "0 < dz \<Longrightarrow> sz \<noteq> 0"
    by (auto simp: dx_def dy_def dz_def sx_def sy_def sz_def sgn_if)
  have lm: "sint s0 + sx * dx = sint e0" "sint s1 + sy * dy = sint e1" "sint s2 + sz * dz = sint e2"
    by (auto simp: dx_def dy_def dz_def sx_def sy_def sz_def sgn_if)
  have ch: "chebyshev (cell_of start_pos) (cell_of end_pos) = nat (max (max dx dy) dz)"
    by (simp add: chebyshev_def cell_of_def p dx_def dy_def dz_def)
  have ln: "cells =
      (if dy \<le> dx \<and> dz \<le> dx then
           zip (major (nat dx) sx (sint s0))
             (zip (minor (nat dx) sy (2 * dx) (2 * dy) (sint s1) (2 * dy - dx))
                  (minor (nat dx) sz (2 * dx) (2 * dz) (sint s2) (2 * dz - dx)))
         else if dx \<le> dy \<and> dz \<le> dy then
           zip (minor (nat dy) sx (2 * dy) (2 * dx) (sint s0) (2 * dx - dy))
             (zip (major (nat dy) sy (sint s1))
                  (minor (nat dy) sz (2 * dy) (2 * dz) (sint s2) (2 * dz - dy)))
         else
           zip (minor (nat dz) sx (2 * dz) (2 * dx) (sint s0) (2 * dx - dz))
             (zip (minor (nat dz) sy (2 * dz) (2 * dy) (sint s1) (2 * dy - dz))
                  (major (nat dz) sz (sint s2))))"
    by (simp only: cells_def p line3_def cell_of_def Let_def prod.case dx_def dy_def dz_def
        sx_def sy_def sz_def)
  note mi = minor_ok_init[OF f(1), folded dx_def sx_def] minor_ok_init[OF f(2), folded dy_def sy_def]
    minor_ok_init[OF f(3), folded dz_def sz_def]
  consider (x) "dy \<le> dx \<and> dz \<le> dx"
    | (y) "\<not> (dy \<le> dx \<and> dz \<le> dx)" "dx \<le> dy \<and> dz \<le> dy"
    | (z) "\<not> (dy \<le> dx \<and> dz \<le> dx)" "\<not> (dx \<le> dy \<and> dz \<le> dy)" "dx \<le> dz \<and> dy \<le> dz"
    by linarith
  then have "length cells = nat (max (max dx dy) dz) + 1 \<and> hd cells = (sint s0, sint s1, sint s2)
      \<and> last cells = (sint e0, sint e1, sint e2) \<and> chain cells \<and> distinct cells"
  proof cases
    case x
    define A B C where "A = major (nat dx) sx (sint s0)"
      and "B = minor (nat dx) sy (2 * dx) (2 * dy) (sint s1) (2 * dy - dx)"
      and "C = minor (nat dx) sz (2 * dx) (2 * dz) (sint s2) (2 * dz - dx)"
    have c: "cells = zip A (zip B C)"
      by (simp only: ln x if_True simp_thms A_def B_def C_def)
    have la: "last A = sint e0" "last B = sint e1" "last C = sint e2"
      using x b lm last_minor[OF mi(2), of dx] last_minor[OF mi(3), of dx]
      by (simp_all add: A_def B_def C_def last_major)
    note z3 = zip3_props[of A "nat dx" B C]
    have pre: "length A = Suc (nat dx)" "length B = Suc (nat dx)" "length C = Suc (nat dx)"
      "\<forall>i<nat dx. \<bar>A ! Suc i - A ! i\<bar> \<le> 1" "\<forall>i<nat dx. \<bar>B ! Suc i - B ! i\<bar> \<le> 1"
      "\<forall>i<nat dx. \<bar>C ! Suc i - C ! i\<bar> \<le> 1"
      using s3 by (auto simp: A_def B_def C_def slow_minor nth_major sign3_def)
    have mv: "0 < nat dx \<Longrightarrow> distinct A \<or> distinct B \<or> distinct C"
      using nz by (simp add: A_def distinct_major)
    show ?thesis
      using z3[OF pre mv] x b la
      by (simp add: c) (simp add: A_def B_def C_def)
  next
    case y
    define A B C where "A = minor (nat dy) sx (2 * dy) (2 * dx) (sint s0) (2 * dx - dy)"
      and "B = major (nat dy) sy (sint s1)"
      and "C = minor (nat dy) sz (2 * dy) (2 * dz) (sint s2) (2 * dz - dy)"
    have c: "cells = zip A (zip B C)"
      by (simp only: ln y if_True if_False simp_thms A_def B_def C_def)
    have la: "last A = sint e0" "last B = sint e1" "last C = sint e2"
      using y b lm last_minor[OF mi(1), of dy] last_minor[OF mi(3), of dy]
      by (simp_all add: A_def B_def C_def last_major)
    note z3 = zip3_props[of A "nat dy" B C]
    have pre: "length A = Suc (nat dy)" "length B = Suc (nat dy)" "length C = Suc (nat dy)"
      "\<forall>i<nat dy. \<bar>A ! Suc i - A ! i\<bar> \<le> 1" "\<forall>i<nat dy. \<bar>B ! Suc i - B ! i\<bar> \<le> 1"
      "\<forall>i<nat dy. \<bar>C ! Suc i - C ! i\<bar> \<le> 1"
      using s3 by (auto simp: A_def B_def C_def slow_minor nth_major sign3_def)
    have mv: "0 < nat dy \<Longrightarrow> distinct A \<or> distinct B \<or> distinct C"
      using nz by (simp add: B_def distinct_major)
    show ?thesis
      using z3[OF pre mv] y b la
      by (simp add: c) (simp add: A_def B_def C_def)
  next
    case z
    define A B C where "A = minor (nat dz) sx (2 * dz) (2 * dx) (sint s0) (2 * dx - dz)"
      and "B = minor (nat dz) sy (2 * dz) (2 * dy) (sint s1) (2 * dy - dz)"
      and "C = major (nat dz) sz (sint s2)"
    have c: "cells = zip A (zip B C)"
      by (simp only: ln z if_True if_False simp_thms A_def B_def C_def)
    have la: "last A = sint e0" "last B = sint e1" "last C = sint e2"
      using z b lm last_minor[OF mi(1), of dz] last_minor[OF mi(2), of dz]
      by (simp_all add: A_def B_def C_def last_major)
    note z3 = zip3_props[of A "nat dz" B C]
    have pre: "length A = Suc (nat dz)" "length B = Suc (nat dz)" "length C = Suc (nat dz)"
      "\<forall>i<nat dz. \<bar>A ! Suc i - A ! i\<bar> \<le> 1" "\<forall>i<nat dz. \<bar>B ! Suc i - B ! i\<bar> \<le> 1"
      "\<forall>i<nat dz. \<bar>C ! Suc i - C ! i\<bar> \<le> 1"
      using s3 by (auto simp: A_def B_def C_def slow_minor nth_major sign3_def)
    have mv: "0 < nat dz \<Longrightarrow> distinct A \<or> distinct B \<or> distinct C"
      using nz by (simp add: C_def distinct_major)
    show ?thesis
      using z3[OF pre mv] z b la
      by (simp add: c) (simp add: A_def B_def C_def)
  qed
  then show "length cells = chebyshev (cell_of start_pos) (cell_of end_pos) + 1"
    and "hd cells = cell_of start_pos"
    and "last cells = cell_of end_pos"
    and "chain cells"
    and "distinct cells"
    using ch by (simp_all add: cell_of_def p)
qed



section \<open>Properties of the 3-D tracer\<close>

text \<open>
  For endpoints that fit the \<^verbatim>\<open>int\<close> locals of the tracer (all components within
  32 bits, all differences below \<open>2 ^ 30\<close> in absolute value),
  \<^verbatim>\<open>bresenham_trace\<close> returns, and the cells it hands to its visitor are as many as
  the Chebyshev distance of the endpoints plus one; the first is the start, the last is
  the end, and from each cell to the next no coordinate changes by more than one while at
  least one changes. When the endpoints are equal the start is the only cell.
\<close>

lemma trace_visits_path_in_range:
  assumes "fits_int start_pos end_pos"
  shows "\<exists>cells. bresenham_trace start_pos end_pos record_cell [] = Some cells
           \<and> length cells = chebyshev (cell_of start_pos) (cell_of end_pos) + 1
           \<and> hd cells = cell_of start_pos
           \<and> last cells = cell_of end_pos
           \<and> chain cells
           \<and> (start_pos = end_pos \<longrightarrow> cells = [cell_of start_pos])"
proof -
  let ?cells = "line3 (cell_of start_pos) (cell_of end_pos)"
  note pr = line3_props[OF assms]
  have "start_pos = end_pos \<longrightarrow> ?cells = [cell_of start_pos]"
  proof
    assume "start_pos = end_pos"
    then have "length ?cells = 1"
      using pr(1) by (cases end_pos) (simp add: chebyshev_def cell_of_def)
    then show "?cells = [cell_of start_pos]"
      using pr(2) by (cases ?cells) auto
  qed
  with bresenham_trace_fits[OF assms] pr show ?thesis by blast
qed

text \<open>
  C1 fails on the code. The tracer is to trace a straight line from \<^verbatim>\<open>start_pos\<close> to
  \<^verbatim>\<open>end_pos\<close>, which are 64 bits wide, and copies them and their differences into
  \<^verbatim>\<open>int\<close> locals. From \<open>(0, 0, 0)\<close> to \<open>(1, 2 ^ 32, 0)\<close> the difference on y
  is narrowed to 0: the tracer visits two cells and stops at \<open>(1, 0, 0)\<close>, where the
  path has \<open>2 ^ 32 + 1\<close> cells and ends at \<open>(1, 2 ^ 32, 0)\<close>.
\<close>

theorem trace_stops_short:
  "bresenham_trace (0, 0, 0) (1, 2 ^ 32, 0) record_cell [] = Some [(0, 0, 0), (1, 0, 0)]
   \<and> chebyshev (cell_of (0, 0, 0)) (cell_of (1, 2 ^ 32, 0)) + 1 = 4294967297
   \<and> cell_of (1, 2 ^ 32, 0) = (1, 4294967296, 0)"
proof -
  have "bresenham_trace (0, 0, 0) (1, 2 ^ 32, 0) record_cell [] = Some [(0, 0, 0), (1, 0, 0)]"
    by code_simp
  then show ?thesis by (simp add: cell_of_def chebyshev_def)
qed




text \<open>
  C4 fails on the code: the coordinates are 64 bits wide, the locals of the tracer are
  not. From \<open>(0, 0, 0)\<close> to \<open>(3, 2 ^ 32 + 1, 0)\<close> every component and every difference
  is representable in 64 bits, and the tracer narrows the difference on y to 1 and walks
  to \<open>(3, 1, 0)\<close>.
\<close>

theorem trace_narrows_to_int:
  "bresenham_trace (0, 0, 0) (3, 2 ^ 32 + 1, 0) record_cell []
     = Some [(0, 0, 0), (1, 0, 0), (2, 1, 0), (3, 1, 0)]
   \<and> cell_of (3, 2 ^ 32 + 1, 0) = (3, 4294967297, 0)"
proof -
  have "bresenham_trace (0, 0, 0) (3, 2 ^ 32 + 1, 0) record_cell []
     = Some [(0, 0, 0), (1, 0, 0), (2, 1, 0), (3, 1, 0)]"
    by code_simp
  then show ?thesis by (simp add: cell_of_def)
qed

subsection \<open>Any visitor sees the cells of the full path until it stops\<close>

lemma visit_more:
  "(let r = f x y z st in if \<not> fst r then Some (snd r) else Some (visit f cells (snd r)))
     = Some (visit f ((x, y, z) # cells) st)"
  by (simp add: Let_def)

lemma trace_x_end:
  "x = end0 \<Longrightarrow> trace_x f end0 (sx, sy, sz, ax, ay, az) (x, y, z, decy, decz) st
     = Some (visit f [(x, y, z)] st)"
  by (subst trace_x_unfold) (simp add: Let_def)

lemma trace_x_visit_step:
  assumes ih: "\<And>g e k v seen out. trace_x' g e k v seen = Some out \<Longrightarrow>
      g = record_cell \<longrightarrow>
      (\<exists>cells. out = seen @ cells \<and> (\<forall>(f :: 't visitor3) st. trace_x f e k v st = Some (visit f cells st)))"
    and st: "(case k of (sx, sy, sz, ax, ay, az) \<Rightarrow>
      case v of (x, y, z, decy, decz) \<Rightarrow>
      let r = record_cell x y z seen in
      if \<not> fst r then Some (snd r)
      else if x = end0 then Some (snd r)
      else
        let decy1 = (if decy \<ge> 0 then int32 (decy - ax) else decy);
            y1 = (if decy \<ge> 0 then int32 (y + sy) else y);
            decz1 = (if decz \<ge> 0 then int32 (decz - ax) else decz);
            z1 = (if decz \<ge> 0 then int32 (z + sz) else z)
        in trace_x' record_cell end0 k
             (int32 (x + sx), y1, z1, int32 (decy1 + ay), int32 (decz1 + az)) (snd r)) = Some out"
  shows "\<exists>cells. out = seen @ cells \<and> (\<forall>(f :: 't visitor3) st. trace_x f end0 k v st = Some (visit f cells st))"
proof -
  obtain sx sy sz ax ay az where k: "k = (sx, sy, sz, ax, ay, az)" by (cases k)
  obtain x y z decy decz where v: "v = (x, y, z, decy, decz)" by (cases v)
  define v' where "v' = (int32 (x + sx), (if decy \<ge> 0 then int32 (y + sy) else y),
      (if decz \<ge> 0 then int32 (z + sz) else z),
      int32 ((if decy \<ge> 0 then int32 (decy - ax) else decy) + ay),
      int32 ((if decz \<ge> 0 then int32 (decz - ax) else decz) + az))"
  have st': "(if x = end0 then Some (seen @ [(x, y, z)])
       else trace_x' record_cell end0 k v' (seen @ [(x, y, z)])) = Some out"
    using st unfolding k v v'_def
    by (simp only: prod.case Let_def record_cell_def fst_conv snd_conv not_True_eq_False if_False)
  have un: "trace_x f end0 k v st =
      (let r = f x y z st in if \<not> fst r then Some (snd r)
        else if x = end0 then Some (snd r) else trace_x f end0 k v' (snd r))" for f :: "'t visitor3" and st
    unfolding k v v'_def by (subst trace_x_unfold) (simp only: Let_def)
  show ?thesis
  proof (cases "x = end0")
    case True
    from st' True have "out = seen @ [(x, y, z)]" by simp
    moreover have "trace_x f end0 k v st = Some (visit f [(x, y, z)] st)" for f :: "'t visitor3" and st
      unfolding k v using True by (rule trace_x_end)
    ultimately show ?thesis by blast
  next
    case False
    from st' False have "trace_x' record_cell end0 k v' (seen @ [(x, y, z)]) = Some out"
      by simp
    from ih[OF this] obtain cells where c: "out = (seen @ [(x, y, z)]) @ cells"
      "\<And>(f :: 't visitor3) st. trace_x f end0 k v' st = Some (visit f cells st)"
      by blast
    have "trace_x f end0 k v st = Some (visit f ((x, y, z) # cells) st)" for f :: "'t visitor3" and st
      by (simp only: un False if_False c(2) visit_more)
    with c(1) show ?thesis by (intro exI[of _ "(x, y, z) # cells"]) simp
  qed
qed

lemma trace_x_visit:
  assumes "trace_x record_cell e k v seen = Some out"
  shows "\<exists>cells. out = seen @ cells \<and> (\<forall>(f :: 't visitor3) st. trace_x f e k v st = Some (visit f cells st))"
proof -
  have "record_cell = record_cell \<longrightarrow>
      (\<exists>cells. out = seen @ cells \<and> (\<forall>(f :: 't visitor3) st. trace_x f e k v st = Some (visit f cells st)))"
  proof (rule trace_x.raw_induct[where P = "\<lambda>g e k v seen out. g = record_cell \<longrightarrow>
      (\<exists>cells. out = seen @ cells \<and> (\<forall>(f :: 't visitor3) st. trace_x f e k v st = Some (visit f cells st)))",
      OF _ assms], intro impI, goal_cases)
    case (1 trace_x' g end0 k v st out)
    show ?case
    proof (rule trace_x_visit_step[of trace_x'])
      show "(case k of (sx, sy, sz, ax, ay, az) \<Rightarrow>
      case v of (x, y, z, decy, decz) \<Rightarrow>
      let r = record_cell x y z st in
      if \<not> fst r then Some (snd r)
      else if x = end0 then Some (snd r)
      else
        let decy1 = (if decy \<ge> 0 then int32 (decy - ax) else decy);
            y1 = (if decy \<ge> 0 then int32 (y + sy) else y);
            decz1 = (if decz \<ge> 0 then int32 (decz - ax) else decz);
            z1 = (if decz \<ge> 0 then int32 (z + sz) else z)
        in trace_x' record_cell end0 k
             (int32 (x + sx), y1, z1, int32 (decy1 + ay), int32 (decz1 + az)) (snd r)) = Some out"
        using 1(2) unfolding 1(3) .
    qed (rule 1(1))
  qed
  then show ?thesis by simp
qed

lemma trace_y_end:
  "y = end0 \<Longrightarrow> trace_y f end0 (sx, sy, sz, ax, ay, az) (x, y, z, decx, decz) st
     = Some (visit f [(x, y, z)] st)"
  by (subst trace_y_unfold) (simp add: Let_def)

lemma trace_y_visit_step:
  assumes ih: "\<And>g e k v seen out. trace_y' g e k v seen = Some out \<Longrightarrow>
      g = record_cell \<longrightarrow>
      (\<exists>cells. out = seen @ cells \<and> (\<forall>(f :: 't visitor3) st. trace_y f e k v st = Some (visit f cells st)))"
    and st: "(case k of (sx, sy, sz, ax, ay, az) \<Rightarrow>
      case v of (x, y, z, decx, decz) \<Rightarrow>
      let r = record_cell x y z seen in
      if \<not> fst r then Some (snd r)
      else if y = end0 then Some (snd r)
      else
        let decx1 = (if decx \<ge> 0 then int32 (decx - ay) else decx);
            x1 = (if decx \<ge> 0 then int32 (x + sx) else x);
            decz1 = (if decz \<ge> 0 then int32 (decz - ay) else decz);
            z1 = (if decz \<ge> 0 then int32 (z + sz) else z)
        in trace_y' record_cell end0 k
             (x1, int32 (y + sy), z1, int32 (decx1 + ax), int32 (decz1 + az)) (snd r)) = Some out"
  shows "\<exists>cells. out = seen @ cells \<and> (\<forall>(f :: 't visitor3) st. trace_y f end0 k v st = Some (visit f cells st))"
proof -
  obtain sx sy sz ax ay az where k: "k = (sx, sy, sz, ax, ay, az)" by (cases k)
  obtain x y z decx decz where v: "v = (x, y, z, decx, decz)" by (cases v)
  define v' where "v' = ((if decx \<ge> 0 then int32 (x + sx) else x), int32 (y + sy),
      (if decz \<ge> 0 then int32 (z + sz) else z),
      int32 ((if decx \<ge> 0 then int32 (decx - ay) else decx) + ax),
      int32 ((if decz \<ge> 0 then int32 (decz - ay) else decz) + az))"
  have st': "(if y = end0 then Some (seen @ [(x, y, z)])
       else trace_y' record_cell end0 k v' (seen @ [(x, y, z)])) = Some out"
    using st unfolding k v v'_def
    by (simp only: prod.case Let_def record_cell_def fst_conv snd_conv not_True_eq_False if_False)
  have un: "trace_y f end0 k v st =
      (let r = f x y z st in if \<not> fst r then Some (snd r)
        else if y = end0 then Some (snd r) else trace_y f end0 k v' (snd r))" for f :: "'t visitor3" and st
    unfolding k v v'_def by (subst trace_y_unfold) (simp only: Let_def)
  show ?thesis
  proof (cases "y = end0")
    case True
    from st' True have "out = seen @ [(x, y, z)]" by simp
    moreover have "trace_y f end0 k v st = Some (visit f [(x, y, z)] st)" for f :: "'t visitor3" and st
      unfolding k v using True by (rule trace_y_end)
    ultimately show ?thesis by blast
  next
    case False
    from st' False have "trace_y' record_cell end0 k v' (seen @ [(x, y, z)]) = Some out"
      by simp
    from ih[OF this] obtain cells where c: "out = (seen @ [(x, y, z)]) @ cells"
      "\<And>(f :: 't visitor3) st. trace_y f end0 k v' st = Some (visit f cells st)"
      by blast
    have "trace_y f end0 k v st = Some (visit f ((x, y, z) # cells) st)" for f :: "'t visitor3" and st
      by (simp only: un False if_False c(2) visit_more)
    with c(1) show ?thesis by (intro exI[of _ "(x, y, z) # cells"]) simp
  qed
qed

lemma trace_y_visit:
  assumes "trace_y record_cell e k v seen = Some out"
  shows "\<exists>cells. out = seen @ cells \<and> (\<forall>(f :: 't visitor3) st. trace_y f e k v st = Some (visit f cells st))"
proof -
  have "record_cell = record_cell \<longrightarrow>
      (\<exists>cells. out = seen @ cells \<and> (\<forall>(f :: 't visitor3) st. trace_y f e k v st = Some (visit f cells st)))"
  proof (rule trace_y.raw_induct[where P = "\<lambda>g e k v seen out. g = record_cell \<longrightarrow>
      (\<exists>cells. out = seen @ cells \<and> (\<forall>(f :: 't visitor3) st. trace_y f e k v st = Some (visit f cells st)))",
      OF _ assms], intro impI, goal_cases)
    case (1 trace_y' g end0 k v st out)
    show ?case
    proof (rule trace_y_visit_step[of trace_y'])
      show "(case k of (sx, sy, sz, ax, ay, az) \<Rightarrow>
      case v of (x, y, z, decx, decz) \<Rightarrow>
      let r = record_cell x y z st in
      if \<not> fst r then Some (snd r)
      else if y = end0 then Some (snd r)
      else
        let decx1 = (if decx \<ge> 0 then int32 (decx - ay) else decx);
            x1 = (if decx \<ge> 0 then int32 (x + sx) else x);
            decz1 = (if decz \<ge> 0 then int32 (decz - ay) else decz);
            z1 = (if decz \<ge> 0 then int32 (z + sz) else z)
        in trace_y' record_cell end0 k
             (x1, int32 (y + sy), z1, int32 (decx1 + ax), int32 (decz1 + az)) (snd r)) = Some out"
        using 1(2) unfolding 1(3) .
    qed (rule 1(1))
  qed
  then show ?thesis by simp
qed

lemma trace_z_end:
  "z = end0 \<Longrightarrow> trace_z f end0 (sx, sy, sz, ax, ay, az) (x, y, z, decx, decy) st
     = Some (visit f [(x, y, z)] st)"
  by (subst trace_z_unfold) (simp add: Let_def)

lemma trace_z_visit_step:
  assumes ih: "\<And>g e k v seen out. trace_z' g e k v seen = Some out \<Longrightarrow>
      g = record_cell \<longrightarrow>
      (\<exists>cells. out = seen @ cells \<and> (\<forall>(f :: 't visitor3) st. trace_z f e k v st = Some (visit f cells st)))"
    and st: "(case k of (sx, sy, sz, ax, ay, az) \<Rightarrow>
      case v of (x, y, z, decx, decy) \<Rightarrow>
      let r = record_cell x y z seen in
      if \<not> fst r then Some (snd r)
      else if z = end0 then Some (snd r)
      else
        let decx1 = (if decx \<ge> 0 then int32 (decx - az) else decx);
            x1 = (if decx \<ge> 0 then int32 (x + sx) else x);
            decy1 = (if decy \<ge> 0 then int32 (decy - az) else decy);
            y1 = (if decy \<ge> 0 then int32 (y + sy) else y)
        in trace_z' record_cell end0 k
             (x1, y1, int32 (z + sz), int32 (decx1 + ax), int32 (decy1 + ay)) (snd r)) = Some out"
  shows "\<exists>cells. out = seen @ cells \<and> (\<forall>(f :: 't visitor3) st. trace_z f end0 k v st = Some (visit f cells st))"
proof -
  obtain sx sy sz ax ay az where k: "k = (sx, sy, sz, ax, ay, az)" by (cases k)
  obtain x y z decx decy where v: "v = (x, y, z, decx, decy)" by (cases v)
  define v' where "v' = ((if decx \<ge> 0 then int32 (x + sx) else x),
      (if decy \<ge> 0 then int32 (y + sy) else y), int32 (z + sz),
      int32 ((if decx \<ge> 0 then int32 (decx - az) else decx) + ax),
      int32 ((if decy \<ge> 0 then int32 (decy - az) else decy) + ay))"
  have st': "(if z = end0 then Some (seen @ [(x, y, z)])
       else trace_z' record_cell end0 k v' (seen @ [(x, y, z)])) = Some out"
    using st unfolding k v v'_def
    by (simp only: prod.case Let_def record_cell_def fst_conv snd_conv not_True_eq_False if_False)
  have un: "trace_z f end0 k v st =
      (let r = f x y z st in if \<not> fst r then Some (snd r)
        else if z = end0 then Some (snd r) else trace_z f end0 k v' (snd r))" for f :: "'t visitor3" and st
    unfolding k v v'_def by (subst trace_z_unfold) (simp only: Let_def)
  show ?thesis
  proof (cases "z = end0")
    case True
    from st' True have "out = seen @ [(x, y, z)]" by simp
    moreover have "trace_z f end0 k v st = Some (visit f [(x, y, z)] st)" for f :: "'t visitor3" and st
      unfolding k v using True by (rule trace_z_end)
    ultimately show ?thesis by blast
  next
    case False
    from st' False have "trace_z' record_cell end0 k v' (seen @ [(x, y, z)]) = Some out"
      by simp
    from ih[OF this] obtain cells where c: "out = (seen @ [(x, y, z)]) @ cells"
      "\<And>(f :: 't visitor3) st. trace_z f end0 k v' st = Some (visit f cells st)"
      by blast
    have "trace_z f end0 k v st = Some (visit f ((x, y, z) # cells) st)" for f :: "'t visitor3" and st
      by (simp only: un False if_False c(2) visit_more)
    with c(1) show ?thesis by (intro exI[of _ "(x, y, z) # cells"]) simp
  qed
qed

lemma trace_z_visit:
  assumes "trace_z record_cell e k v seen = Some out"
  shows "\<exists>cells. out = seen @ cells \<and> (\<forall>(f :: 't visitor3) st. trace_z f e k v st = Some (visit f cells st))"
proof -
  have "record_cell = record_cell \<longrightarrow>
      (\<exists>cells. out = seen @ cells \<and> (\<forall>(f :: 't visitor3) st. trace_z f e k v st = Some (visit f cells st)))"
  proof (rule trace_z.raw_induct[where P = "\<lambda>g e k v seen out. g = record_cell \<longrightarrow>
      (\<exists>cells. out = seen @ cells \<and> (\<forall>(f :: 't visitor3) st. trace_z f e k v st = Some (visit f cells st)))",
      OF _ assms], intro impI, goal_cases)
    case (1 trace_z' g end0 k v st out)
    show ?case
    proof (rule trace_z_visit_step[of trace_z'])
      show "(case k of (sx, sy, sz, ax, ay, az) \<Rightarrow>
      case v of (x, y, z, decx, decy) \<Rightarrow>
      let r = record_cell x y z st in
      if \<not> fst r then Some (snd r)
      else if z = end0 then Some (snd r)
      else
        let decx1 = (if decx \<ge> 0 then int32 (decx - az) else decx);
            x1 = (if decx \<ge> 0 then int32 (x + sx) else x);
            decy1 = (if decy \<ge> 0 then int32 (decy - az) else decy);
            y1 = (if decy \<ge> 0 then int32 (y + sy) else y)
        in trace_z' record_cell end0 k
             (x1, y1, int32 (z + sz), int32 (decx1 + ax), int32 (decy1 + ay)) (snd r)) = Some out"
        using 1(2) unfolding 1(3) .
    qed (rule 1(1))
  qed
  then show ?thesis by simp
qed


lemma bresenham_trace_visit:
  fixes f :: "'t visitor3"
  assumes "bresenham_trace start_pos end_pos record_cell [] = Some cells"
  shows "bresenham_trace start_pos end_pos f st = Some (visit f cells st)"
proof -
  obtain s0 s1 s2 e0 e1 e2 where p: "start_pos = (s0, s1, s2)" "end_pos = (e0, e1, e2)"
    by (cases start_pos, cases end_pos) auto
  obtain sx dx where dx: "sign_abs (int32 (sint (e0 - s0))) = (sx, dx)" by (cases "sign_abs (int32 (sint (e0 - s0)))")
  obtain sy dy where dy: "sign_abs (int32 (sint (e1 - s1))) = (sy, dy)" by (cases "sign_abs (int32 (sint (e1 - s1)))")
  obtain sz dz where dz: "sign_abs (int32 (sint (e2 - s2))) = (sz, dz)" by (cases "sign_abs (int32 (sint (e2 - s2)))")
  define k where "k = (sx, sy, sz, int32 (2 * dx), int32 (2 * dy), int32 (2 * dz))"
  define x y z where "x = int32 (sint s0)" and "y = int32 (sint s1)" and "z = int32 (sint s2)"
  have tr: "bresenham_trace start_pos end_pos g u =
      (if dy \<le> dx \<and> dz \<le> dx then
         trace_x g (sint e0) k (x, y, z, int32 (int32 (2 * dy) - dx), int32 (int32 (2 * dz) - dx)) u
       else if dx \<le> dy \<and> dz \<le> dy then
         trace_y g (sint e1) k (x, y, z, int32 (int32 (2 * dx) - dy), int32 (int32 (2 * dz) - dy)) u
       else if dx \<le> dz \<and> dy \<le> dz then
         trace_z g (sint e2) k (x, y, z, int32 (int32 (2 * dx) - dz), int32 (int32 (2 * dy) - dz)) u
       else Some u)" for g :: "'u visitor3" and u
    by (simp only: p bresenham_trace_def Let_def prod.case dx dy dz k_def x_def y_def z_def)
  consider (x) "dy \<le> dx \<and> dz \<le> dx"
    | (y) "\<not> (dy \<le> dx \<and> dz \<le> dx)" "dx \<le> dy \<and> dz \<le> dy"
    | (z) "\<not> (dy \<le> dx \<and> dz \<le> dx)" "\<not> (dx \<le> dy \<and> dz \<le> dy)" "dx \<le> dz \<and> dy \<le> dz"
    | (n) "\<not> (dy \<le> dx \<and> dz \<le> dx)" "\<not> (dx \<le> dy \<and> dz \<le> dy)" "\<not> (dx \<le> dz \<and> dy \<le> dz)"
    by blast
  then show ?thesis
  proof cases
    case x
    from assms have "trace_x record_cell (sint e0) k
        (x, y, z, int32 (int32 (2 * dy) - dx), int32 (int32 (2 * dz) - dx)) [] = Some cells"
      by (simp only: tr x if_True simp_thms)
    from trace_x_visit[OF this, where ?'t = 't] show ?thesis
      by (simp only: tr x if_True simp_thms) simp
  next
    case y
    from assms have "trace_y record_cell (sint e1) k
        (x, y, z, int32 (int32 (2 * dx) - dy), int32 (int32 (2 * dz) - dy)) [] = Some cells"
      by (simp only: tr y if_True if_False simp_thms)
    from trace_y_visit[OF this, where ?'t = 't] show ?thesis
      by (simp only: tr y if_True if_False simp_thms) simp
  next
    case z
    from assms have "trace_z record_cell (sint e2) k
        (x, y, z, int32 (int32 (2 * dx) - dz), int32 (int32 (2 * dy) - dz)) [] = Some cells"
      by (simp only: tr z if_True if_False simp_thms)
    from trace_z_visit[OF this, where ?'t = 't] show ?thesis
      by (simp only: tr z if_True if_False simp_thms) simp
  next
    case n
    from assms have "cells = []"
      by (simp only: tr n if_False simp_thms) simp
    then show ?thesis
      by (simp only: tr n if_False simp_thms) simp
  qed
qed



subsection \<open>A visitor that stops the trace\<close>







lemma visit_record_cell: "visit record_cell cells seen = seen @ cells"
  by (induction cells arbitrary: seen) (auto simp: record_cell_def)


text \<open>
  A loop on x whose end is not an \<^verbatim>\<open>int\<close> never returns unless its visitor stops it.
\<close>

lemma in32_int32: "in32 (int32 v)"
proof -
  have "0 \<le> (v + 2 ^ 31) mod 2 ^ 32" "(v + 2 ^ 31) mod 2 ^ 32 < (2 ^ 32 :: int)"
    by simp_all
  then show ?thesis by (simp add: in32_def int32_def)
qed

lemma trace_x_never:
  assumes "trace_x f e k v st = Some out"
  shows "(\<forall>x y z s. fst (f x y z s)) \<longrightarrow> \<not> in32 e \<longrightarrow> in32 (fst v) \<longrightarrow> False"
proof (rule trace_x.raw_induct[where P = "\<lambda>f e k v st out.
    (\<forall>x y z s. fst (f x y z s)) \<longrightarrow> \<not> in32 e \<longrightarrow> in32 (fst v) \<longrightarrow> False", OF _ assms],
    intro impI, goal_cases)
  case (1 T f end0 k v st out)
  obtain sx sy sz ax ay az where k: "k = (sx, sy, sz, ax, ay, az)" by (cases k)
  obtain x y z decy decz where v: "v = (x, y, z, decy, decz)" by (cases v)
  define v' where "v' = (int32 (x + sx), (if decy \<ge> 0 then int32 (y + sy) else y),
      (if decz \<ge> 0 then int32 (z + sz) else z),
      int32 ((if decy \<ge> 0 then int32 (decy - ax) else decy) + ay),
      int32 ((if decz \<ge> 0 then int32 (decz - ax) else decz) + az))"
  have ne: "x \<noteq> end0" using 1(4,5) by (auto simp: v)
  have c: "fst (f x y z st)" using 1(3) by blast
  have "(if \<not> fst (f x y z st) then Some (snd (f x y z st))
      else if x = end0 then Some (snd (f x y z st))
      else T f end0 k v' (snd (f x y z st))) = Some out"
    using 1(2) unfolding k v v'_def by (simp only: prod.case Let_def)
  then have "T f end0 k v' (snd (f x y z st)) = Some out"
    using ne c by simp
  moreover have "in32 (fst v')" by (simp add: v'_def in32_int32)
  ultimately show ?case using 1(1) 1(3) 1(4) by blast
qed




subsection \<open>The counting tracer is the tracer with the counting visitor\<close>

lemma simple_x_trace_step:
  fixes array3 :: "'m \<Rightarrow> 'c::{plus,one}"
  shows "(case k of (sx, sy, sz, ax, ay, az) \<Rightarrow>
      case v of (x, y, z, decy, decz) \<Rightarrow>
      let mem_ix = grid_to_mem x y z;
          array3' = array3 (mem_ix := array3 mem_ix + 1)
      in
      if x = end0 then Some array3'
      else
        let decy1 = (if decy \<ge> 0 then int32 (decy - ax) else decy);
            y1 = (if decy \<ge> 0 then int32 (y + sy) else y);
            decz1 = (if decz \<ge> 0 then int32 (decz - ax) else decz);
            z1 = (if decz \<ge> 0 then int32 (z + sz) else z)
        in S end0 k
             (int32 (x + sx), y1, z1, int32 (decy1 + ay), int32 (decz1 + az)) array3')
    = (case k of (sx, sy, sz, ax, ay, az) \<Rightarrow>
      case v of (x, y, z, decy, decz) \<Rightarrow>
      let r = count_cell grid_to_mem x y z array3 in
      if \<not> fst r then Some (snd r)
      else if x = end0 then Some (snd r)
      else
        let decy1 = (if decy \<ge> 0 then int32 (decy - ax) else decy);
            y1 = (if decy \<ge> 0 then int32 (y + sy) else y);
            decz1 = (if decz \<ge> 0 then int32 (decz - ax) else decz);
            z1 = (if decz \<ge> 0 then int32 (z + sz) else z)
        in S end0 k
             (int32 (x + sx), y1, z1, int32 (decy1 + ay), int32 (decz1 + az)) (snd r))"
  by (simp only: count_cell_def Let_def fst_conv snd_conv not_True_eq_False if_False)

lemma simple_x_imp_trace:
  fixes array3 :: "'m \<Rightarrow> 'c::{plus,one}"
  assumes "simple_x grid_to_mem e k v array3 = Some out"
  shows "trace_x (count_cell grid_to_mem) e k v array3 = Some out"
proof (rule simple_x.raw_induct[where P = "\<lambda>g e k v a out.
    trace_x (count_cell g) e k v a = Some (out :: 'm \<Rightarrow> 'c)", OF _ assms], goal_cases)
  case (1 S g end0 k v a out)
  have "(case k of (sx, sy, sz, ax, ay, az) \<Rightarrow>
      case v of (x, y, z, decy, decz) \<Rightarrow>
      let r = count_cell g x y z a in
      if \<not> fst r then Some (snd r)
      else if x = end0 then Some (snd r)
      else
        let decy1 = (if decy \<ge> 0 then int32 (decy - ax) else decy);
            y1 = (if decy \<ge> 0 then int32 (y + sy) else y);
            decz1 = (if decz \<ge> 0 then int32 (decz - ax) else decz);
            z1 = (if decz \<ge> 0 then int32 (z + sz) else z)
        in S g end0 k
             (int32 (x + sx), y1, z1, int32 (decy1 + ay), int32 (decz1 + az)) (snd r)) = Some out"
    using 1(2) by (simp only: simple_x_trace_step[where S = "S g"])
  then show ?case
    by (subst trace_x.simps)
      (auto simp: Let_def count_cell_def split: prod.splits if_splits intro: 1(1))
qed

lemma trace_x_imp_simple:
  fixes array3 :: "'m \<Rightarrow> 'c::{plus,one}"
  assumes "trace_x (count_cell grid_to_mem) e k v array3 = Some out"
  shows "simple_x grid_to_mem e k v array3 = Some out"
proof -
  have "(count_cell grid_to_mem :: ('m \<Rightarrow> 'c) visitor3) = count_cell grid_to_mem \<longrightarrow>
      simple_x grid_to_mem e k v array3 = Some out"
  proof (rule trace_x.raw_induct[where P = "\<lambda>f e k v a out.
      f = count_cell grid_to_mem \<longrightarrow> simple_x grid_to_mem e k v a = Some (out :: 'm \<Rightarrow> 'c)",
      OF _ assms], intro impI, goal_cases)
    case (1 T f end0 k v a out)
    have "(case k of (sx, sy, sz, ax, ay, az) \<Rightarrow>
      case v of (x, y, z, decy, decz) \<Rightarrow>
      let mem_ix = grid_to_mem x y z;
          array3' = a (mem_ix := a mem_ix + 1)
      in
      if x = end0 then Some array3'
      else
        let decy1 = (if decy \<ge> 0 then int32 (decy - ax) else decy);
            y1 = (if decy \<ge> 0 then int32 (y + sy) else y);
            decz1 = (if decz \<ge> 0 then int32 (decz - ax) else decz);
            z1 = (if decz \<ge> 0 then int32 (z + sz) else z)
        in T (count_cell grid_to_mem) end0 k
             (int32 (x + sx), y1, z1, int32 (decy1 + ay), int32 (decz1 + az)) array3') = Some out"
      using 1(2) unfolding 1(3)
      by (simp only: simple_x_trace_step[where S = "T (count_cell grid_to_mem)"])
    then show ?case
      by (subst simple_x.simps)
        (auto simp: Let_def split: prod.splits if_splits intro: 1(1)[rule_format])
  qed
  then show ?thesis by simp
qed

lemma simple_x_eq:
  fixes array3 :: "'m \<Rightarrow> 'c::{plus,one}"
  shows "simple_x grid_to_mem e k v array3 = trace_x (count_cell grid_to_mem) e k v array3"
proof (cases "simple_x grid_to_mem e k v array3")
  case None
  show ?thesis
  proof (cases "trace_x (count_cell grid_to_mem) e k v array3")
    case (Some out)
    from trace_x_imp_simple[OF this] None show ?thesis by simp
  qed (simp add: None)
next
  case (Some out)
  from simple_x_imp_trace[OF this] Some show ?thesis by simp
qed

lemma simple_y_trace_step:
  fixes array3 :: "'m \<Rightarrow> 'c::{plus,one}"
  shows "(case k of (sx, sy, sz, ax, ay, az) \<Rightarrow>
      case v of (x, y, z, decx, decz) \<Rightarrow>
      let mem_ix = grid_to_mem x y z;
          array3' = array3 (mem_ix := array3 mem_ix + 1)
      in
      if y = end0 then Some array3'
      else
        let decx1 = (if decx \<ge> 0 then int32 (decx - ay) else decx);
            x1 = (if decx \<ge> 0 then int32 (x + sx) else x);
            decz1 = (if decz \<ge> 0 then int32 (decz - ay) else decz);
            z1 = (if decz \<ge> 0 then int32 (z + sz) else z)
        in S end0 k
             (x1, int32 (y + sy), z1, int32 (decx1 + ax), int32 (decz1 + az)) array3')
    = (case k of (sx, sy, sz, ax, ay, az) \<Rightarrow>
      case v of (x, y, z, decx, decz) \<Rightarrow>
      let r = count_cell grid_to_mem x y z array3 in
      if \<not> fst r then Some (snd r)
      else if y = end0 then Some (snd r)
      else
        let decx1 = (if decx \<ge> 0 then int32 (decx - ay) else decx);
            x1 = (if decx \<ge> 0 then int32 (x + sx) else x);
            decz1 = (if decz \<ge> 0 then int32 (decz - ay) else decz);
            z1 = (if decz \<ge> 0 then int32 (z + sz) else z)
        in S end0 k
             (x1, int32 (y + sy), z1, int32 (decx1 + ax), int32 (decz1 + az)) (snd r))"
  by (simp only: count_cell_def Let_def fst_conv snd_conv not_True_eq_False if_False)

lemma simple_y_imp_trace:
  fixes array3 :: "'m \<Rightarrow> 'c::{plus,one}"
  assumes "simple_y grid_to_mem e k v array3 = Some out"
  shows "trace_y (count_cell grid_to_mem) e k v array3 = Some out"
proof (rule simple_y.raw_induct[where P = "\<lambda>g e k v a out.
    trace_y (count_cell g) e k v a = Some (out :: 'm \<Rightarrow> 'c)", OF _ assms], goal_cases)
  case (1 S g end0 k v a out)
  have "(case k of (sx, sy, sz, ax, ay, az) \<Rightarrow>
      case v of (x, y, z, decx, decz) \<Rightarrow>
      let r = count_cell g x y z a in
      if \<not> fst r then Some (snd r)
      else if y = end0 then Some (snd r)
      else
        let decx1 = (if decx \<ge> 0 then int32 (decx - ay) else decx);
            x1 = (if decx \<ge> 0 then int32 (x + sx) else x);
            decz1 = (if decz \<ge> 0 then int32 (decz - ay) else decz);
            z1 = (if decz \<ge> 0 then int32 (z + sz) else z)
        in S g end0 k
             (x1, int32 (y + sy), z1, int32 (decx1 + ax), int32 (decz1 + az)) (snd r)) = Some out"
    using 1(2) by (simp only: simple_y_trace_step[where S = "S g"])
  then show ?case
    by (subst trace_y.simps)
      (auto simp: Let_def count_cell_def split: prod.splits if_splits intro: 1(1))
qed

lemma trace_y_imp_simple:
  fixes array3 :: "'m \<Rightarrow> 'c::{plus,one}"
  assumes "trace_y (count_cell grid_to_mem) e k v array3 = Some out"
  shows "simple_y grid_to_mem e k v array3 = Some out"
proof -
  have "(count_cell grid_to_mem :: ('m \<Rightarrow> 'c) visitor3) = count_cell grid_to_mem \<longrightarrow>
      simple_y grid_to_mem e k v array3 = Some out"
  proof (rule trace_y.raw_induct[where P = "\<lambda>f e k v a out.
      f = count_cell grid_to_mem \<longrightarrow> simple_y grid_to_mem e k v a = Some (out :: 'm \<Rightarrow> 'c)",
      OF _ assms], intro impI, goal_cases)
    case (1 T f end0 k v a out)
    have "(case k of (sx, sy, sz, ax, ay, az) \<Rightarrow>
      case v of (x, y, z, decx, decz) \<Rightarrow>
      let mem_ix = grid_to_mem x y z;
          array3' = a (mem_ix := a mem_ix + 1)
      in
      if y = end0 then Some array3'
      else
        let decx1 = (if decx \<ge> 0 then int32 (decx - ay) else decx);
            x1 = (if decx \<ge> 0 then int32 (x + sx) else x);
            decz1 = (if decz \<ge> 0 then int32 (decz - ay) else decz);
            z1 = (if decz \<ge> 0 then int32 (z + sz) else z)
        in T (count_cell grid_to_mem) end0 k
             (x1, int32 (y + sy), z1, int32 (decx1 + ax), int32 (decz1 + az)) array3') = Some out"
      using 1(2) unfolding 1(3)
      by (simp only: simple_y_trace_step[where S = "T (count_cell grid_to_mem)"])
    then show ?case
      by (subst simple_y.simps)
        (auto simp: Let_def split: prod.splits if_splits intro: 1(1)[rule_format])
  qed
  then show ?thesis by simp
qed

lemma simple_y_eq:
  fixes array3 :: "'m \<Rightarrow> 'c::{plus,one}"
  shows "simple_y grid_to_mem e k v array3 = trace_y (count_cell grid_to_mem) e k v array3"
proof (cases "simple_y grid_to_mem e k v array3")
  case None
  show ?thesis
  proof (cases "trace_y (count_cell grid_to_mem) e k v array3")
    case (Some out)
    from trace_y_imp_simple[OF this] None show ?thesis by simp
  qed (simp add: None)
next
  case (Some out)
  from simple_y_imp_trace[OF this] Some show ?thesis by simp
qed

lemma simple_z_trace_step:
  fixes array3 :: "'m \<Rightarrow> 'c::{plus,one}"
  shows "(case k of (sx, sy, sz, ax, ay, az) \<Rightarrow>
      case v of (x, y, z, decx, decy) \<Rightarrow>
      let mem_ix = grid_to_mem x y z;
          array3' = array3 (mem_ix := array3 mem_ix + 1)
      in
      if z = end0 then Some array3'
      else
        let decx1 = (if decx \<ge> 0 then int32 (decx - az) else decx);
            x1 = (if decx \<ge> 0 then int32 (x + sx) else x);
            decy1 = (if decy \<ge> 0 then int32 (decy - az) else decy);
            y1 = (if decy \<ge> 0 then int32 (y + sy) else y)
        in S end0 k
             (x1, y1, int32 (z + sz), int32 (decx1 + ax), int32 (decy1 + ay)) array3')
    = (case k of (sx, sy, sz, ax, ay, az) \<Rightarrow>
      case v of (x, y, z, decx, decy) \<Rightarrow>
      let r = count_cell grid_to_mem x y z array3 in
      if \<not> fst r then Some (snd r)
      else if z = end0 then Some (snd r)
      else
        let decx1 = (if decx \<ge> 0 then int32 (decx - az) else decx);
            x1 = (if decx \<ge> 0 then int32 (x + sx) else x);
            decy1 = (if decy \<ge> 0 then int32 (decy - az) else decy);
            y1 = (if decy \<ge> 0 then int32 (y + sy) else y)
        in S end0 k
             (x1, y1, int32 (z + sz), int32 (decx1 + ax), int32 (decy1 + ay)) (snd r))"
  by (simp only: count_cell_def Let_def fst_conv snd_conv not_True_eq_False if_False)

lemma simple_z_imp_trace:
  fixes array3 :: "'m \<Rightarrow> 'c::{plus,one}"
  assumes "simple_z grid_to_mem e k v array3 = Some out"
  shows "trace_z (count_cell grid_to_mem) e k v array3 = Some out"
proof (rule simple_z.raw_induct[where P = "\<lambda>g e k v a out.
    trace_z (count_cell g) e k v a = Some (out :: 'm \<Rightarrow> 'c)", OF _ assms], goal_cases)
  case (1 S g end0 k v a out)
  have "(case k of (sx, sy, sz, ax, ay, az) \<Rightarrow>
      case v of (x, y, z, decx, decy) \<Rightarrow>
      let r = count_cell g x y z a in
      if \<not> fst r then Some (snd r)
      else if z = end0 then Some (snd r)
      else
        let decx1 = (if decx \<ge> 0 then int32 (decx - az) else decx);
            x1 = (if decx \<ge> 0 then int32 (x + sx) else x);
            decy1 = (if decy \<ge> 0 then int32 (decy - az) else decy);
            y1 = (if decy \<ge> 0 then int32 (y + sy) else y)
        in S g end0 k
             (x1, y1, int32 (z + sz), int32 (decx1 + ax), int32 (decy1 + ay)) (snd r)) = Some out"
    using 1(2) by (simp only: simple_z_trace_step[where S = "S g"])
  then show ?case
    by (subst trace_z.simps)
      (auto simp: Let_def count_cell_def split: prod.splits if_splits intro: 1(1))
qed

lemma trace_z_imp_simple:
  fixes array3 :: "'m \<Rightarrow> 'c::{plus,one}"
  assumes "trace_z (count_cell grid_to_mem) e k v array3 = Some out"
  shows "simple_z grid_to_mem e k v array3 = Some out"
proof -
  have "(count_cell grid_to_mem :: ('m \<Rightarrow> 'c) visitor3) = count_cell grid_to_mem \<longrightarrow>
      simple_z grid_to_mem e k v array3 = Some out"
  proof (rule trace_z.raw_induct[where P = "\<lambda>f e k v a out.
      f = count_cell grid_to_mem \<longrightarrow> simple_z grid_to_mem e k v a = Some (out :: 'm \<Rightarrow> 'c)",
      OF _ assms], intro impI, goal_cases)
    case (1 T f end0 k v a out)
    have "(case k of (sx, sy, sz, ax, ay, az) \<Rightarrow>
      case v of (x, y, z, decx, decy) \<Rightarrow>
      let mem_ix = grid_to_mem x y z;
          array3' = a (mem_ix := a mem_ix + 1)
      in
      if z = end0 then Some array3'
      else
        let decx1 = (if decx \<ge> 0 then int32 (decx - az) else decx);
            x1 = (if decx \<ge> 0 then int32 (x + sx) else x);
            decy1 = (if decy \<ge> 0 then int32 (decy - az) else decy);
            y1 = (if decy \<ge> 0 then int32 (y + sy) else y)
        in T (count_cell grid_to_mem) end0 k
             (x1, y1, int32 (z + sz), int32 (decx1 + ax), int32 (decy1 + ay)) array3') = Some out"
      using 1(2) unfolding 1(3)
      by (simp only: simple_z_trace_step[where S = "T (count_cell grid_to_mem)"])
    then show ?case
      by (subst simple_z.simps)
        (auto simp: Let_def split: prod.splits if_splits intro: 1(1)[rule_format])
  qed
  then show ?thesis by simp
qed

lemma simple_z_eq:
  fixes array3 :: "'m \<Rightarrow> 'c::{plus,one}"
  shows "simple_z grid_to_mem e k v array3 = trace_z (count_cell grid_to_mem) e k v array3"
proof (cases "simple_z grid_to_mem e k v array3")
  case None
  show ?thesis
  proof (cases "trace_z (count_cell grid_to_mem) e k v array3")
    case (Some out)
    from trace_z_imp_simple[OF this] None show ?thesis by simp
  qed (simp add: None)
next
  case (Some out)
  from simple_z_imp_trace[OF this] Some show ?thesis by simp
qed


lemma bresenham_trace_simple_eq:
  fixes array3 :: "'m \<Rightarrow> 'c::{plus,one}"
  shows "bresenham_trace_simple start_pos end_pos grid_to_mem array3
           = bresenham_trace start_pos end_pos (count_cell grid_to_mem) array3"
  unfolding bresenham_trace_simple_def bresenham_trace_def
  by (simp only: simple_x_eq simple_y_eq simple_z_eq)

lemma visit_count_cell_fold:
  fixes array3 :: "'m \<Rightarrow> 'c::{plus,one}"
  shows "visit (count_cell g) cells array3 =
    fold (\<lambda>c a. a ((case c of (x, y, z) \<Rightarrow> g x y z)
            := a (case c of (x, y, z) \<Rightarrow> g x y z) + 1)) cells array3"
proof (induction cells arbitrary: array3)
  case Nil
  then show ?case by simp
next
  case (Cons c cells)
  obtain x y z where c: "c = (x, y, z)" by (cases c)
  have r: "count_cell g x y z array3 = (True, array3 (g x y z := array3 (g x y z) + 1))"
    by (simp add: count_cell_def)
  show ?case by (simp add: c r Cons.IH fun_upd_def cong: if_cong)
qed

text \<open>
  C8. On every pair of grid coordinates, \<^verbatim>\<open>bresenham_trace_simple\<close> does what
  \<^verbatim>\<open>bresenham_trace\<close> does with the visitor that increments the counter at
  \<^verbatim>\<open>grid_to_mem(x, y, z)\<close> and returns true: the same store results from the same
  visits in the same order (and neither returns where the other does not). That visitor
  never asks to stop, and the counting tracer never ends early: when the full path is
  \<open>cells\<close>, the store it returns is the given one after one increment for each cell of
  the path, in order.
\<close>

theorem trace_simple_is_trace:
  fixes array3 :: "'m \<Rightarrow> 'c::{plus,one}"
  shows "bresenham_trace_simple start_pos end_pos grid_to_mem array3
           = bresenham_trace start_pos end_pos (count_cell grid_to_mem) array3
         \<and> fst (count_cell grid_to_mem x y z array3)
         \<and> (\<forall>cells. bresenham_trace start_pos end_pos record_cell [] = Some cells \<longrightarrow>
               bresenham_trace_simple start_pos end_pos grid_to_mem array3
                 = Some (fold (\<lambda>c a. a ((case c of (x, y, z) \<Rightarrow> grid_to_mem x y z)
                      := a (case c of (x, y, z) \<Rightarrow> grid_to_mem x y z) + 1)) cells array3))"
  by (simp add: bresenham_trace_simple_eq count_cell_def[of grid_to_mem x y z array3]
      bresenham_trace_visit visit_count_cell_fold)

theorem trace_simple_is_trace_witness:
  "bresenham_trace (0, 0, 0) (3, 1, 0) record_cell []
     = Some [(0, 0, 0), (1, 0, 0), (2, 1, 0), (3, 1, 0)]
   \<and> bresenham_trace_simple (0, 0, 0) (3, 1, 0) (\<lambda>x y z. (x, y, z)) (\<lambda>m. 0 :: int)
     = Some (fold (\<lambda>c a. a ((case c of (x, y, z) \<Rightarrow> (x, y, z))
                      := a (case c of (x, y, z) \<Rightarrow> (x, y, z)) + 1))
          [(0, 0, 0), (1, 0, 0), (2, 1, 0), (3, 1, 0)] (\<lambda>m. 0))"
proof -
  have h: "bresenham_trace (0, 0, 0) (3, 1, 0) record_cell []
     = Some [(0, 0, 0), (1, 0, 0), (2, 1, 0), (3, 1, 0)]"
    by code_simp
  from trace_simple_is_trace[of "(0, 0, 0)" "(3, 1, 0)" "\<lambda>x y z. (x, y, z)" "\<lambda>m. 0 :: int"] h
  show ?thesis by blast
qed

subsection \<open>Counting along a path\<close>

lemma visit_count_cell:
  fixes array3 :: "'m \<Rightarrow> 'c::semiring_1"
  shows "visit (count_cell g) cells array3 =
    (\<lambda>m. array3 m + of_nat (length (filter (\<lambda>c. (case c of (x, y, z) \<Rightarrow> g x y z) = m) cells)))"
proof (induction cells arbitrary: array3)
  case Nil
  then show ?case by simp
next
  case (Cons c cells)
  obtain x y z where c: "c = (x, y, z)" by (cases c)
  have r: "count_cell g x y z array3 = (True, array3 (g x y z := array3 (g x y z) + 1))"
    by (simp add: count_cell_def)
  show ?case
    by (rule ext) (simp add: c r Cons.IH add.assoc add.commute add.left_commute)
qed

lemma count_on_path:
  assumes "distinct cells" "inj_on f (set cells)"
  shows "length (filter (\<lambda>c. f c = m) cells) = (if m \<in> f ` set cells then 1 else 0)"
  using assms
proof (induction cells)
  case Nil
  then show ?case by simp
next
  case (Cons c cells)
  then show ?case by (auto simp: inj_on_def image_iff filter_empty_conv)
qed

lemma trace_simple_times_eq:
  fixes array3 :: "'m \<Rightarrow> 'c::semiring_1"
  assumes "bresenham_trace start_pos end_pos record_cell [] = Some cells"
  shows "trace_simple_times N start_pos end_pos g array3 =
    Some (\<lambda>m. array3 m
      + of_nat (N * length (filter (\<lambda>c. (case c of (x, y, z) \<Rightarrow> g x y z) = m) cells)))"
proof (induction N arbitrary: array3)
  case 0
  then show ?case by simp
next
  case (Suc N)
  show ?case
    by (simp add: bresenham_trace_simple_eq bresenham_trace_visit[OF assms] visit_count_cell
        Suc.IH add.assoc distrib_right)
qed

text \<open>
  Take endpoints that fit the \<^verbatim>\<open>int\<close> locals of the tracer, the path \<open>cells\<close>
  between them, a grid whose \<^verbatim>\<open>grid_to_mem\<close> is injective on the cells of the path,
  and counters of a type whose arithmetic is a semiring with one (the integers, or
  integers of a fixed width with wrap-around). Then \<open>N\<close> runs of
  \<^verbatim>\<open>bresenham_trace_simple\<close> return, the counter of every cell of the path has grown
  by \<open>N\<close> in that arithmetic, and every other counter of the store is as it was.
\<close>

lemma trace_simple_counts_in_range:
  fixes array3 :: "'m \<Rightarrow> 'c::semiring_1"
  assumes "fits_int start_pos end_pos"
    and "bresenham_trace start_pos end_pos record_cell [] = Some cells"
    and "inj_on (\<lambda>(x, y, z). grid_to_mem x y z) (set cells)"
  shows "\<exists>array3'. trace_simple_times N start_pos end_pos grid_to_mem array3 = Some array3'
           \<and> (\<forall>c \<in> set cells. array3' (case c of (x, y, z) \<Rightarrow> grid_to_mem x y z)
                 = array3 (case c of (x, y, z) \<Rightarrow> grid_to_mem x y z) + of_nat N)
           \<and> (\<forall>m. m \<notin> (\<lambda>(x, y, z). grid_to_mem x y z) ` set cells \<longrightarrow> array3' m = array3 m)"
proof -
  have "cells = line3 (cell_of start_pos) (cell_of end_pos)"
    using bresenham_trace_fits[OF assms(1)] assms(2) by simp
  then have d: "distinct cells" using line3_props(5)[OF assms(1)] by simp
  note n = count_on_path[OF d assms(3)]
  let ?g = "\<lambda>(x, y, z). grid_to_mem x y z"
  let ?a' = "\<lambda>m. array3 m + of_nat (N * (if m \<in> ?g ` set cells then 1 else 0))"
  have "trace_simple_times N start_pos end_pos grid_to_mem array3 = Some ?a'"
    by (simp only: trace_simple_times_eq[OF assms(2)] n)
  moreover have "\<forall>c \<in> set cells. ?a' (?g c) = array3 (?g c) + of_nat N"
    by simp
  moreover have "\<forall>m. m \<notin> ?g ` set cells \<longrightarrow> ?a' m = array3 m"
    by simp
  ultimately show ?thesis by blast
qed

text \<open>
  C7 fails on the code. The coordinates are 64 bits wide and the locals of the counting
  tracer are \<^verbatim>\<open>int\<close>: from \<open>(2 ^ 32, 0, 0)\<close> to \<open>(2 ^ 32 + 1, 0, 0)\<close>, with an
  injective mapping, the local \<^verbatim>\<open>x\<close> starts at 0 and can never equal
  \<^verbatim>\<open>end_pos[0]\<close>, so that a single run of \<^verbatim>\<open>bresenham_trace_simple\<close> never
  returns, where the path has two cells whose counters are to grow by one.
\<close>

theorem trace_simple_never_returns:
  "trace_simple_times 1 (2 ^ 32, 0, 0) (2 ^ 32 + 1, 0, 0) (\<lambda>x y z. (x, y, z)) (\<lambda>m. 0 :: int)
     = None"
proof -
  let ?f = "count_cell (\<lambda>x y z. (x, y, z)) :: (int \<times> int \<times> int \<Rightarrow> int) visitor3"
  have t: "bresenham_trace (2 ^ 32, 0, 0) (2 ^ 32 + 1, 0, 0) ?f (\<lambda>m. 0)
      = trace_x ?f 4294967297 (1, 0, 0, 2, 0, 0) (0, 0, 0, - 1, - 1) (\<lambda>m. 0)"
    by (simp add: bresenham_trace_def sign_abs_def int32_def)
  have "trace_x ?f 4294967297 (1, 0, 0, 2, 0, 0) (0, 0, 0, - 1, - 1) (\<lambda>m. 0) = None"
  proof (cases "trace_x ?f 4294967297 (1, 0, 0, 2, 0, 0) (0, 0, 0, - 1, - 1) (\<lambda>m. 0)")
    case (Some out)
    have "\<forall>x y z s. fst (?f x y z s)" by (simp add: count_cell_def)
    moreover have "\<not> in32 4294967297" "in32 (fst (0 :: int, 0 :: int, 0 :: int, - 1 :: int, - 1 :: int))"
      by (simp_all add: in32_def)
    ultimately show ?thesis using trace_x_never[OF Some] by blast
  qed
  then have "bresenham_trace_simple (2 ^ 32, 0, 0) (2 ^ 32 + 1, 0, 0) (\<lambda>x y z. (x, y, z))
      (\<lambda>m. 0 :: int) = None"
    by (simp only: bresenham_trace_simple_eq t)
  then show ?thesis
    by (simp only: One_nat_def trace_simple_times.simps option.case)
qed

subsection \<open>The flag of the 2-D tracer\<close>

lemma trace2_x_flag_imp:
  fixes f :: "'s visitor2"
  assumes "trace2_x f e k v st = Some out"
  shows "trace2_x (\<lambda>x y end_cell. f x y False) e k v st = Some out"
proof (rule trace2_x.raw_induct[where P = "\<lambda>f e k v st out.
    trace2_x (\<lambda>x y end_cell. f x y False) e k v st = Some (out :: 's)", OF _ assms], goal_cases)
  case (1 T f end0 k v st out)
  from 1(2) show ?case
    by (subst trace2_x.simps)
      (auto simp: Let_def split: prod.splits if_splits intro: 1(1))
qed

lemma trace2_x_flag_gen:
  assumes "trace2_x g e k v st = Some out"
  shows "\<forall>f :: 's visitor2. g = (\<lambda>x y end_cell. f x y False) \<longrightarrow> trace2_x f e k v st = Some (out :: 's)"
proof (rule trace2_x.raw_induct[where P = "\<lambda>g e k v st out.
      \<forall>f :: 's visitor2. g = (\<lambda>x y end_cell. f x y False) \<longrightarrow> trace2_x f e k v st = Some (out :: 's)",
      OF _ assms], intro allI impI, goal_cases)
  case (1 T g end0 k v st out f)
  have ih: "trace2_x f e' k' v' st' = Some out'"
    if "T (\<lambda>x y end_cell. f x y False) e' k' v' st' = Some out'" for e' k' v' st' out'
    using 1(1)[OF that] by blast
  from 1(2) show ?case
    unfolding 1(3)
    by (subst trace2_x.simps)
      (auto simp: Let_def split: prod.splits if_splits intro: ih)
qed

lemma trace2_x_flag_rev:
  fixes f :: "'s visitor2"
  assumes "trace2_x (\<lambda>x y end_cell. f x y False) e k v st = Some out"
  shows "trace2_x f e k v st = Some out"
  using trace2_x_flag_gen[OF assms] by blast

lemma trace2_x_flag:
  "trace2_x f e k v st = trace2_x (\<lambda>x y end_cell. f x y False) e k v st"
proof (cases "trace2_x f e k v st")
  case None
  show ?thesis
  proof (cases "trace2_x (\<lambda>x y end_cell. f x y False) e k v st")
    case (Some out)
    from trace2_x_flag_rev[of f, OF this] None show ?thesis by simp
  qed (simp add: None)
next
  case (Some out)
  from trace2_x_flag_imp[OF this] Some show ?thesis by simp
qed

lemma trace2_x_record:
  assumes "trace2_x g e k v seen = Some out"
  shows "g = record_flag \<longrightarrow> True \<notin> set seen \<longrightarrow> True \<notin> set out"
proof (rule trace2_x.raw_induct[where P = "\<lambda>g e k v seen out.
    g = record_flag \<longrightarrow> True \<notin> set seen \<longrightarrow> True \<notin> set out", OF _ assms], intro impI, goal_cases)
  case (1 T g end0 k v seen out)
  have r: "record_flag a b False seen = (True, seen @ [False])" for a b
    by (simp add: record_flag_def)
  have ih: "True \<notin> set out'"
    if "T record_flag e' k' v' seen' = Some out'" "True \<notin> set seen'" for e' k' v' seen' out'
    using 1(1)[OF that(1)] that(2) by blast
  from 1(2) 1(4) show ?case
    unfolding 1(3)
    by (auto simp: Let_def r split: prod.splits if_splits dest!: ih)
qed

lemma trace2_x_no_True:
  "trace2_x record_flag e k v [] = Some flags \<Longrightarrow> True \<notin> set flags"
  using trace2_x_record[of record_flag e k v "[]" flags] by simp

lemma trace2_y_flag_imp:
  fixes f :: "'s visitor2"
  assumes "trace2_y f e k v st = Some out"
  shows "trace2_y (\<lambda>x y end_cell. f x y False) e k v st = Some out"
proof (rule trace2_y.raw_induct[where P = "\<lambda>f e k v st out.
    trace2_y (\<lambda>x y end_cell. f x y False) e k v st = Some (out :: 's)", OF _ assms], goal_cases)
  case (1 T f end0 k v st out)
  from 1(2) show ?case
    by (subst trace2_y.simps)
      (auto simp: Let_def split: prod.splits if_splits intro: 1(1))
qed

lemma trace2_y_flag_gen:
  assumes "trace2_y g e k v st = Some out"
  shows "\<forall>f :: 's visitor2. g = (\<lambda>x y end_cell. f x y False) \<longrightarrow> trace2_y f e k v st = Some (out :: 's)"
proof (rule trace2_y.raw_induct[where P = "\<lambda>g e k v st out.
      \<forall>f :: 's visitor2. g = (\<lambda>x y end_cell. f x y False) \<longrightarrow> trace2_y f e k v st = Some (out :: 's)",
      OF _ assms], intro allI impI, goal_cases)
  case (1 T g end0 k v st out f)
  have ih: "trace2_y f e' k' v' st' = Some out'"
    if "T (\<lambda>x y end_cell. f x y False) e' k' v' st' = Some out'" for e' k' v' st' out'
    using 1(1)[OF that] by blast
  from 1(2) show ?case
    unfolding 1(3)
    by (subst trace2_y.simps)
      (auto simp: Let_def split: prod.splits if_splits intro: ih)
qed

lemma trace2_y_flag_rev:
  fixes f :: "'s visitor2"
  assumes "trace2_y (\<lambda>x y end_cell. f x y False) e k v st = Some out"
  shows "trace2_y f e k v st = Some out"
  using trace2_y_flag_gen[OF assms] by blast

lemma trace2_y_flag:
  "trace2_y f e k v st = trace2_y (\<lambda>x y end_cell. f x y False) e k v st"
proof (cases "trace2_y f e k v st")
  case None
  show ?thesis
  proof (cases "trace2_y (\<lambda>x y end_cell. f x y False) e k v st")
    case (Some out)
    from trace2_y_flag_rev[of f, OF this] None show ?thesis by simp
  qed (simp add: None)
next
  case (Some out)
  from trace2_y_flag_imp[OF this] Some show ?thesis by simp
qed

lemma trace2_y_record:
  assumes "trace2_y g e k v seen = Some out"
  shows "g = record_flag \<longrightarrow> True \<notin> set seen \<longrightarrow> True \<notin> set out"
proof (rule trace2_y.raw_induct[where P = "\<lambda>g e k v seen out.
    g = record_flag \<longrightarrow> True \<notin> set seen \<longrightarrow> True \<notin> set out", OF _ assms], intro impI, goal_cases)
  case (1 T g end0 k v seen out)
  have r: "record_flag a b False seen = (True, seen @ [False])" for a b
    by (simp add: record_flag_def)
  have ih: "True \<notin> set out'"
    if "T record_flag e' k' v' seen' = Some out'" "True \<notin> set seen'" for e' k' v' seen' out'
    using 1(1)[OF that(1)] that(2) by blast
  from 1(2) 1(4) show ?case
    unfolding 1(3)
    by (auto simp: Let_def r split: prod.splits if_splits dest!: ih)
qed

lemma trace2_y_no_True:
  "trace2_y record_flag e k v [] = Some flags \<Longrightarrow> True \<notin> set flags"
  using trace2_y_record[of record_flag e k v "[]" flags] by simp

text \<open>
  C5. On every pair of 2-D grid coordinates, and for every visitor, the 2-D
  \<^verbatim>\<open>bresenham_trace\<close> does what it would do with a visitor that saw the flag
  \<open>False\<close> whatever it is given: the flag it passes is \<open>False\<close> on every invocation, the
  one for the end cell included. Accordingly a visitor that records its flag has recorded
  no \<open>True\<close> when the tracer returns.
\<close>

theorem trace_2d_flag_false:
  "bresenham_trace_2d start_pos end_pos fun st
     = bresenham_trace_2d start_pos end_pos (\<lambda>x y end_cell. fun x y False) st
   \<and> (\<forall>flags. bresenham_trace_2d start_pos end_pos record_flag [] = Some flags
         \<longrightarrow> True \<notin> set flags)"
proof
  show "bresenham_trace_2d start_pos end_pos fun st
     = bresenham_trace_2d start_pos end_pos (\<lambda>x y end_cell. fun x y False) st"
    unfolding bresenham_trace_2d_def
    by (subst trace2_x_flag, subst trace2_y_flag) (rule refl)
  show "\<forall>flags. bresenham_trace_2d start_pos end_pos record_flag [] = Some flags
         \<longrightarrow> True \<notin> set flags"
  proof (intro allI impI)
    fix flags
    assume "bresenham_trace_2d start_pos end_pos record_flag [] = Some flags"
    then show "True \<notin> set flags"
      unfolding bresenham_trace_2d_def
      by (auto simp: Let_def split: prod.splits if_splits
          dest: trace2_x_no_True trace2_y_no_True)
  qed
qed

theorem trace_2d_flag_false_witness:
  "bresenham_trace_2d (0, 0) (0, 5) record_flag []
     = Some [False, False, False, False, False, False]
   \<and> True \<notin> set [False, False, False, False, False, False]
   \<and> bresenham_trace_2d (0, 0) (0, 5) (\<lambda>x y end_cell seen. (\<not> end_cell, seen @ [(x, y)])) []
     = bresenham_trace_2d (0, 0) (0, 5) (\<lambda>x y end_cell seen. (True, seen @ [(x, y)])) []"
proof -
  have h: "bresenham_trace_2d (0, 0) (0, 5) record_flag []
     = Some [False, False, False, False, False, False]"
    by code_simp
  from trace_2d_flag_false[of "(0, 0)" "(0, 5)"
      "\<lambda>x y end_cell seen. (\<not> end_cell, seen @ [(x, y)])" "[]"] h
  show ?thesis by simp
qed

section \<open>Properties of the box test\<close>

lemma aabb_accepts0:
  fixes bound :: "'a::{minus,times,linorder} Box"
  assumes "a = (vx (bound (vx (sign r))) - vx (origin r)) * vx (invdir r)"
    and "b = (vx (bound (1 - vx (sign r))) - vx (origin r)) * vx (invdir r)"
    and "c = (vy (bound (vy (sign r))) - vy (origin r)) * vy (invdir r)"
    and "d = (vy (bound (1 - vy (sign r))) - vy (origin r)) * vy (invdir r)"
    and "e = (vz (bound (vz (sign r))) - vz (origin r)) * vz (invdir r)"
    and "f = (vz (bound (1 - vz (sign r))) - vz (origin r)) * vz (invdir r)"
  shows "fst (aabb_ray_intersect bound r) \<longleftrightarrow>
      \<not> (a > d \<or> c > b)
      \<and> \<not> ((if c > a then c else a) > f \<or> e > (if d < b then d else b))"
  unfolding aabb_ray_intersect_def assms[symmetric] Let_def
  by (simp only: if_distrib[of fst] fst_conv if_False if_True simp_thms split: if_split) blast

lemma six:
  fixes a :: "'a::linorder"
  shows "(\<not> (a > d \<or> c > b)
      \<and> \<not> ((if c > a then c else a) > f \<or> e > (if d < b then d else b))) \<longleftrightarrow> a \<le> d \<and> c \<le> b \<and> max a c \<le> f \<and> e \<le> min b d"
  by (auto simp: max_def min_def not_less)

lemma aabb_accepts:
  fixes bound :: "'a::{minus,times,linorder} Box"
  shows "fst (aabb_ray_intersect bound r) \<longleftrightarrow>
    fst (slab vx vx bound r) \<le> snd (slab vy vy bound r)
    \<and> fst (slab vy vy bound r) \<le> snd (slab vx vx bound r)
    \<and> max (fst (slab vx vx bound r)) (fst (slab vy vy bound r)) \<le> snd (slab vz vz bound r)
    \<and> fst (slab vz vz bound r) \<le> min (snd (slab vx vx bound r)) (snd (slab vy vy bound r))"
  unfolding slab_def fst_conv snd_conv
  by (subst aabb_accepts0[OF refl refl refl refl refl refl]) (rule six)

text \<open>
  C2, as the code has it. Over a totally ordered scalar type, for a box and a ray whose
  three slab intervals are each non-empty (as they are for a box with min \<open>\<le>\<close> max and
  sign bits that match the reciprocal direction), \<^verbatim>\<open>aabb_ray_intersect\<close> returns true
  if and only if the three slab intervals have a common point. The segment
  \<open>[tmin, tmax]\<close> of the ray takes no part in the answer: the test gives the same
  answer for any other segment.
\<close>

theorem aabb_true_iff_slabs_meet:
  fixes bound :: "'a::{minus,times,linorder} Box"
  assumes "fst (slab vx vx bound r) \<le> snd (slab vx vx bound r)"
    and "fst (slab vy vy bound r) \<le> snd (slab vy vy bound r)"
    and "fst (slab vz vz bound r) \<le> snd (slab vz vz bound r)"
  shows "(fst (aabb_ray_intersect bound r) \<longleftrightarrow>
           (\<exists>t. inside t (slab vx vx bound r) \<and> inside t (slab vy vy bound r)
              \<and> inside t (slab vz vz bound r)))
         \<and> fst (aabb_ray_intersect bound (r\<lparr>tmin := t0, tmax := t1\<rparr>))
             = fst (aabb_ray_intersect bound r)"
proof
  obtain a b where x: "slab vx vx bound r = (a, b)" by (cases "slab vx vx bound r")
  obtain c d where y: "slab vy vy bound r = (c, d)" by (cases "slab vy vy bound r")
  obtain e f where z: "slab vz vz bound r = (e, f)" by (cases "slab vz vz bound r")
  from assms have ne: "a \<le> b" "c \<le> d" "e \<le> f" by (simp_all add: x y z)
  show "fst (aabb_ray_intersect bound r) \<longleftrightarrow>
           (\<exists>t. inside t (slab vx vx bound r) \<and> inside t (slab vy vy bound r)
              \<and> inside t (slab vz vz bound r))"
  proof
    assume "fst (aabb_ray_intersect bound r)"
    then have "a \<le> d" "c \<le> b" "max a c \<le> f" "e \<le> min b d"
      by (simp_all add: aabb_accepts x y z)
    with ne have "inside (max (max a c) e) (a, b) \<and> inside (max (max a c) e) (c, d)
        \<and> inside (max (max a c) e) (e, f)"
      by (simp add: inside_def le_max_iff_disj)
    then show "\<exists>t. inside t (slab vx vx bound r) \<and> inside t (slab vy vy bound r)
              \<and> inside t (slab vz vz bound r)"
      unfolding x y z by blast
  next
    assume "\<exists>t. inside t (slab vx vx bound r) \<and> inside t (slab vy vy bound r)
              \<and> inside t (slab vz vz bound r)"
    then obtain t where "a \<le> t" "t \<le> b" "c \<le> t" "t \<le> d" "e \<le> t" "t \<le> f"
      by (auto simp: inside_def x y z)
    then have "a \<le> d" "c \<le> b" "max a c \<le> f" "e \<le> min b d"
      by auto
    then show "fst (aabb_ray_intersect bound r)"
      by (simp add: aabb_accepts x y z)
  qed
  show "fst (aabb_ray_intersect bound (r\<lparr>tmin := t0, tmax := t1\<rparr>))
             = fst (aabb_ray_intersect bound r)"
    by (simp add: aabb_accepts slab_def)
qed

theorem aabb_true_iff_slabs_meet_witness:
  "fst (slab vx vx (\<lambda>i. if i = 0 then (1, 1, 1) else (2, 2, 2))
          \<lparr>origin = (0, 0, 0), invdir = (1, 1, 1), sign = (0, 0, 0), tmin = 5, tmax = 10 :: real\<rparr>)
     \<le> snd (slab vx vx (\<lambda>i. if i = 0 then (1, 1, 1) else (2, 2, 2))
          \<lparr>origin = (0, 0, 0), invdir = (1, 1, 1), sign = (0, 0, 0), tmin = 5, tmax = 10 :: real\<rparr>)
   \<and> fst (aabb_ray_intersect (\<lambda>i. if i = 0 then (1, 1, 1) else (2, 2, 2))
          \<lparr>origin = (0, 0, 0), invdir = (1, 1, 1), sign = (0, 0, 0), tmin = 5, tmax = 10 :: real\<rparr>)
   \<and> (\<exists>t. inside t (slab vx vx (\<lambda>i. if i = 0 then (1, 1, 1) else (2, 2, 2))
          \<lparr>origin = (0, 0, 0), invdir = (1, 1, 1), sign = (0, 0, 0), tmin = 5, tmax = 10 :: real\<rparr>)
        \<and> inside t (slab vy vy (\<lambda>i. if i = 0 then (1, 1, 1) else (2, 2, 2))
          \<lparr>origin = (0, 0, 0), invdir = (1, 1, 1), sign = (0, 0, 0), tmin = 5, tmax = 10 :: real\<rparr>)
        \<and> inside t (slab vz vz (\<lambda>i. if i = 0 then (1, 1, 1) else (2, 2, 2))
          \<lparr>origin = (0, 0, 0), invdir = (1, 1, 1), sign = (0, 0, 0), tmin = 5, tmax = 10 :: real\<rparr>))"
proof -
  let ?b = "\<lambda>i :: int. if i = 0 then (1, 1, 1) else (2, 2, 2 :: real)"
  let ?r = "\<lparr>origin = (0, 0, 0), invdir = (1, 1, 1), sign = (0, 0, 0), tmin = 5, tmax = 10 :: real\<rparr>"
  have h: "fst (slab vx vx ?b ?r) \<le> snd (slab vx vx ?b ?r)"
    "fst (slab vy vy ?b ?r) \<le> snd (slab vy vy ?b ?r)"
    "fst (slab vz vz ?b ?r) \<le> snd (slab vz vz ?b ?r)"
    by (simp_all add: slab_def vx_def vy_def vz_def)
  have t: "fst (aabb_ray_intersect ?b ?r)"
    by (simp add: aabb_ray_intersect_def vx_def vy_def vz_def)
  from aabb_true_iff_slabs_meet[OF h] t h(1) show ?thesis by blast
qed

text \<open>
  C2 as stated fails: the box \<open>[1, 2]\<^sup>3\<close> lies behind the segment \<open>[5, 10]\<close> of the
  ray from the origin with reciprocal direction \<open>(1, 1, 1)\<close> (each slab is \<open>[1, 2]\<close>),
  and the test returns true, leaving the ray with \<open>tmin = 5\<close> and \<open>tmax = 2\<close>. All
  values are small integers, on which floating-point arithmetic is exact.
\<close>

theorem aabb_behind_counterexample:
  "aabb_ray_intersect (\<lambda>i. if i = 0 then (1, 1, 1) else (2, 2, 2))
      \<lparr>origin = (0, 0, 0), invdir = (1, 1, 1), sign = (0, 0, 0), tmin = 5, tmax = 10 :: real\<rparr>
    = (True, \<lparr>origin = (0, 0, 0), invdir = (1, 1, 1), sign = (0, 0, 0), tmin = 5, tmax = 2\<rparr>)
   \<and> slab vx vx (\<lambda>i. if i = 0 then (1, 1, 1) else (2, 2, 2))
      \<lparr>origin = (0, 0, 0), invdir = (1, 1, 1), sign = (0, 0, 0), tmin = 5, tmax = 10 :: real\<rparr>
    = (1, 2)
   \<and> \<not> ((5 :: real) \<le> 2)"
  by (simp add: aabb_ray_intersect_def slab_def vx_def vy_def vz_def)

text \<open>
  C10. Whenever \<^verbatim>\<open>aabb_ray_intersect\<close> returns false, the ray is as the caller
  supplied it, its \<open>tmin\<close> and \<open>tmax\<close> in particular: both \<^verbatim>\<open>return false\<close>
  come before the first assignment to the ray. This holds for every scalar type.
\<close>

theorem aabb_false_keeps_ray:
  fixes bound :: "'a::{minus,times,ord} Box"
  assumes "\<not> fst (aabb_ray_intersect bound r)"
  shows "snd (aabb_ray_intersect bound r) = r
         \<and> tmin (snd (aabb_ray_intersect bound r)) = tmin r
         \<and> tmax (snd (aabb_ray_intersect bound r)) = tmax r"
  using assms by (auto simp: aabb_ray_intersect_def Let_def split: if_splits)

theorem aabb_false_keeps_ray_witness:
  "\<not> fst (aabb_ray_intersect (\<lambda>i. if i = 0 then (1, 1, 1) else (2, 2, 2))
      \<lparr>origin = (0, 5, 0), invdir = (1, 1, 1), sign = (0, 0, 0), tmin = 0, tmax = 10 :: real\<rparr>)
   \<and> tmin (snd (aabb_ray_intersect (\<lambda>i. if i = 0 then (1, 1, 1) else (2, 2, 2))
      \<lparr>origin = (0, 5, 0), invdir = (1, 1, 1), sign = (0, 0, 0), tmin = 0, tmax = 10 :: real\<rparr>)) = 0
   \<and> tmax (snd (aabb_ray_intersect (\<lambda>i. if i = 0 then (1, 1, 1) else (2, 2, 2))
      \<lparr>origin = (0, 5, 0), invdir = (1, 1, 1), sign = (0, 0, 0), tmin = 0, tmax = 10 :: real\<rparr>)) = 10"
proof -
  let ?b = "\<lambda>i :: int. if i = 0 then (1, 1, 1) else (2, 2, 2 :: real)"
  let ?r = "\<lparr>origin = (0, 5, 0), invdir = (1, 1, 1), sign = (0, 0, 0), tmin = 0, tmax = 10 :: real\<rparr>"
  have h: "\<not> fst (aabb_ray_intersect ?b ?r)"
    by (simp add: aabb_ray_intersect_def vx_def vy_def vz_def)
  from aabb_false_keeps_ray[OF h] h show ?thesis by simp
qed

subsection \<open>Rays parallel to the planes of an axis\<close>















end
